theory Spec2Isabelle
  imports Main
begin

section \<open>Data model of the Vikunja to Google Calendar reconciler (src/index.js)\<close>

text \<open>
  Timestamps are the UTC instants (milliseconds) that \<^verbatim>\<open>dayjs.utc(...)\<close> parses
  \<^verbatim>\<open>task.updated_at\<close> and \<^verbatim>\<open>event.updated\<close> to; dates are calendar days,
  the day that \<^verbatim>\<open>dayjs(task.due_date).format('YYYY-MM-DD')\<close> renders (a day number;
  \<^verbatim>\<open>.add(1, 'day')\<close> is the next day number). A due date that is null or absent is
  \<open>None\<close>. Identifiers handed out by the calendar service are opaque to the program
  (it only stores them, passes them back and compares them with \<^verbatim>\<open>!==\<close>); they are
  natural numbers here. Vikunja identifiers are non-negative integers.
\<close>

type_synonym instant = int
type_synonym day = int

record project =
  project_id :: nat
  project_title :: string

record task =
  task_id :: nat
  task_title :: string
  task_description :: "string option"
  task_due_date :: "day option"
  task_done :: bool
  task_updated_at :: instant
  task_project_id :: nat
  task_project :: "project option"

text \<open>The environment variables that \<^verbatim>\<open>run\<close> reads (line 32) and uses afterwards.\<close>

record config =
  CALENDAR_PREFIX :: string
  VIKUNJA_FRONTEND_URL :: string
  GOOGLE_CALENDAR_SHARE_WITH_EMAIL :: string

text \<open>An entry of \<^verbatim>\<open>calendarList.list\<close>, or the calendar resource that
  \<^verbatim>\<open>calendars.insert\<close> returns.\<close>

record gcal =
  cal_id :: nat
  cal_summary :: string

text \<open>The request body of \<^verbatim>\<open>events.insert\<close> and \<^verbatim>\<open>events.update\<close>, as
  \<^verbatim>\<open>buildGoogleEvent\<close> builds it.\<close>

record payload =
  summary :: string
  description :: string
  start_date :: "day option"
  end_date :: "day option"
  transparency :: string
  vikunjaTaskId :: string

text \<open>An event as \<^verbatim>\<open>events.list\<close> returns it. \<open>ev_vikunjaTaskId\<close> is
  \<^verbatim>\<open>event.extendedProperties?.private?.vikunjaTaskId\<close>: \<open>None\<close> when any link of the
  chain is missing. \<open>ev_transparency\<close> is \<open>None\<close> when the field is absent.\<close>

record gevent =
  ev_id :: nat
  ev_summary :: string
  ev_description :: string
  ev_start :: "day option"
  ev_end :: "day option"
  ev_transparency :: "string option"
  ev_vikunjaTaskId :: "string option"
  ev_updated :: instant

section \<open>The two remote services and the log of what the program does to them\<close>

text \<open>
  Every remote call either succeeds or is rejected with an error whose \<^verbatim>\<open>code\<close> is a
  number. The log records, in program order, each call with its outcome, each
  \<^verbatim>\<open>delay(ms)\<close> and each \<^verbatim>\<open>console.error\<close> (with the fixed head of its message).
\<close>

datatype outcome = Ok | Err nat

datatype call =
    ProjectsGet
  | TasksGet nat
  | CalendarListList
  | CalendarsInsert string
  | AclList nat
  | AclInsert nat string
  | EventsList nat
  | EventsInsert nat payload
  | EventsUpdate nat nat payload
  | EventsDelete nat nat

datatype entry = Call call outcome | Delay nat | ConsoleError string

text \<open>A calendar held by the calendar service: its sharing rules (the
  \<^verbatim>\<open>scope.value\<close> of each) and its events, in the order \<^verbatim>\<open>events.list\<close> returns them.\<close>

record rcalendar =
  rc_id :: nat
  rc_summary :: string
  rc_acl :: "string list"
  rc_events :: "gevent list"

text \<open>The calendar service: the calendars of the service account, in the order
  \<^verbatim>\<open>calendarList.list\<close> returns them, the next identifier it hands out and its
  clock.\<close>

record sink =
  s_calendars :: "rcalendar list"
  s_next :: nat
  s_now :: instant

text \<open>
  The world the cycle runs in: the calendar service, the outcomes of the remote calls
  still to come (a call made when the list is exhausted succeeds), and the log.
\<close>

record world =
  w_sink :: sink
  w_faults :: "outcome list"
  w_trace :: "entry list"

definition next_outcome :: "world \<Rightarrow> outcome" where
  "next_outcome w = (case w_faults w of [] \<Rightarrow> Ok | r # _ \<Rightarrow> r)"

definition remote :: "call \<Rightarrow> world \<Rightarrow> outcome \<times> world" where
  "remote c w =
     (next_outcome w,
      w\<lparr>w_faults := tl (w_faults w), w_trace := w_trace w @ [Call c (next_outcome w)]\<rparr>)"

definition delay :: "nat \<Rightarrow> world \<Rightarrow> world" where
  "delay ms w = w\<lparr>w_trace := w_trace w @ [Delay ms]\<rparr>"

definition console_error :: "string \<Rightarrow> world \<Rightarrow> world" where
  "console_error msg w = w\<lparr>w_trace := w_trace w @ [ConsoleError msg]\<rparr>"

subsection \<open>What a successful call does to the calendar service\<close>

text \<open>
  The calendar service is not part of the repository; this is its contract as the
  program relies on it: an inserted calendar gets a fresh identifier and appears in the
  calendar list; an inserted event gets a fresh identifier, the fields of the request
  body and the service's time as \<^verbatim>\<open>updated\<close>; an update replaces the fields of the
  event with that identifier; a delete removes it.
\<close>

definition listed :: "rcalendar \<Rightarrow> gcal" where
  "listed rc = \<lparr>cal_id = rc_id rc, cal_summary = rc_summary rc\<rparr>"

definition event_of_payload :: "nat \<Rightarrow> instant \<Rightarrow> payload \<Rightarrow> gevent" where
  "event_of_payload eid now p =
     \<lparr>ev_id = eid, ev_summary = summary p, ev_description = description p,
      ev_start = start_date p, ev_end = end_date p,
      ev_transparency = Some (transparency p),
      ev_vikunjaTaskId = Some (vikunjaTaskId p), ev_updated = now\<rparr>"

definition in_calendar :: "nat \<Rightarrow> (rcalendar \<Rightarrow> rcalendar) \<Rightarrow> sink \<Rightarrow> sink" where
  "in_calendar cid f s =
     s\<lparr>s_calendars := map (\<lambda>rc. if rc_id rc = cid then f rc else rc) (s_calendars s)\<rparr>"

definition store_calendar :: "string \<Rightarrow> sink \<Rightarrow> gcal \<times> sink" where
  "store_calendar name s =
     (\<lparr>cal_id = s_next s, cal_summary = name\<rparr>,
      s\<lparr>s_calendars := s_calendars s @
            [\<lparr>rc_id = s_next s, rc_summary = name, rc_acl = [], rc_events = []\<rparr>],
        s_next := Suc (s_next s)\<rparr>)"

definition store_acl_rule :: "nat \<Rightarrow> string \<Rightarrow> sink \<Rightarrow> sink" where
  "store_acl_rule cid who s = in_calendar cid (\<lambda>rc. rc\<lparr>rc_acl := rc_acl rc @ [who]\<rparr>) s"

definition store_event_insert :: "nat \<Rightarrow> payload \<Rightarrow> sink \<Rightarrow> sink" where
  "store_event_insert cid p s =
     (in_calendar cid
        (\<lambda>rc. rc\<lparr>rc_events := rc_events rc @ [event_of_payload (s_next s) (s_now s) p]\<rparr>) s)
     \<lparr>s_next := Suc (s_next s)\<rparr>"

definition store_event_update :: "nat \<Rightarrow> nat \<Rightarrow> payload \<Rightarrow> sink \<Rightarrow> sink" where
  "store_event_update cid eid p s =
     in_calendar cid
       (\<lambda>rc. rc\<lparr>rc_events :=
           map (\<lambda>e. if ev_id e = eid then event_of_payload eid (s_now s) p else e)
             (rc_events rc)\<rparr>) s"

definition store_event_delete :: "nat \<Rightarrow> nat \<Rightarrow> sink \<Rightarrow> sink" where
  "store_event_delete cid eid s =
     in_calendar cid (\<lambda>rc. rc\<lparr>rc_events := filter (\<lambda>e. ev_id e \<noteq> eid) (rc_events rc)\<rparr>) s"

definition acl_of :: "sink \<Rightarrow> nat \<Rightarrow> string list" where
  "acl_of s cid = concat (map rc_acl (filter (\<lambda>rc. rc_id rc = cid) (s_calendars s)))"

definition events_of :: "sink \<Rightarrow> nat \<Rightarrow> gevent list" where
  "events_of s cid = concat (map rc_events (filter (\<lambda>rc. rc_id rc = cid) (s_calendars s)))"

text \<open>The effect of an accepted call on the world.\<close>

definition on_sink :: "(sink \<Rightarrow> sink) \<Rightarrow> world \<Rightarrow> world" where
  "on_sink f w = w\<lparr>w_sink := f (w_sink w)\<rparr>"

section \<open>JavaScript built-ins the program uses\<close>

text \<open>\<^verbatim>\<open>String(n)\<close> of a non-negative integer: its decimal digits.\<close>

definition digit :: "nat \<Rightarrow> char" where
  "digit d = char_of (48 + d)"

fun js_String :: "nat \<Rightarrow> string" where
  "js_String n = (if n < 10 then [digit n] else js_String (n div 10) @ [digit (n mod 10)])"

declare js_String.simps [simp del]

definition startsWith :: "string \<Rightarrow> string \<Rightarrow> bool" where
  "startsWith s p \<longleftrightarrow> take (length p) s = p"

text \<open>A \<^verbatim>\<open>Map\<close> keeps its entries in insertion order; \<^verbatim>\<open>set\<close> on a key that is
  present replaces the value where it stands.\<close>

fun Map_set :: "'k \<Rightarrow> 'v \<Rightarrow> ('k \<times> 'v) list \<Rightarrow> ('k \<times> 'v) list" where
  "Map_set k v [] = [(k, v)]"
| "Map_set k v ((k', v') # m) = (if k' = k then (k, v) # m else (k', v') # Map_set k v m)"

definition Map_get :: "('k \<times> 'v) list \<Rightarrow> 'k \<Rightarrow> 'v option" where
  "Map_get m k = map_of m k"

definition Map_has :: "('k \<times> 'v) list \<Rightarrow> 'k \<Rightarrow> bool" where
  "Map_has m k \<longleftrightarrow> map_of m k \<noteq> None"

definition new_Map :: "('k \<times> 'v) list \<Rightarrow> ('k \<times> 'v) list" where
  "new_Map entries = foldl (\<lambda>m (k, v). Map_set k v m) [] entries"

section \<open>Helper functions of \<^verbatim>\<open>run\<close> (lines 102 to 178)\<close>

definition getManagedCalendars :: "config \<Rightarrow> world \<Rightarrow> gcal list \<times> world" where
  "getManagedCalendars cfg w =
     (case remote CalendarListList w of
        (Ok, w1) \<Rightarrow>
          (filter (\<lambda>cal. startsWith (cal_summary cal) (CALENDAR_PREFIX cfg))
             (map listed (s_calendars (w_sink w1))), w1)
      | (Err c, w1) \<Rightarrow> ([], console_error ''Error fetching Google Calendars:'' w1))"

definition createGoogleCalendar :: "config \<Rightarrow> string \<Rightarrow> world \<Rightarrow> gcal option \<times> world" where
  "createGoogleCalendar cfg projectName w =
     (let calendarName = CALENDAR_PREFIX cfg @ '' '' @ projectName in
      case remote (CalendarsInsert calendarName) w of
        (Ok, w1) \<Rightarrow>
          (case store_calendar calendarName (w_sink w1) of
             (newCal, s2) \<Rightarrow> (Some newCal, w1\<lparr>w_sink := s2\<rparr>))
      | (Err c, w1) \<Rightarrow> (None, console_error ''Error creating calendar for project'' w1))"

text \<open>The second parameter of the source, \<^verbatim>\<open>calendarSummary\<close>, only appears in log
  messages.\<close>

definition ensureCalendarIsShared :: "config \<Rightarrow> nat \<Rightarrow> world \<Rightarrow> world" where
  "ensureCalendarIsShared cfg calendarId w =
     (case remote (AclList calendarId) w of
        (Err c, w1) \<Rightarrow> console_error ''Failed to share calendar'' w1
      | (Ok, w1) \<Rightarrow>
          (let isAlreadyShared =
                 list_ex (\<lambda>rule. rule = GOOGLE_CALENDAR_SHARE_WITH_EMAIL cfg)
                   (acl_of (w_sink w1) calendarId)
           in if \<not> isAlreadyShared then
                (case remote (AclInsert calendarId (GOOGLE_CALENDAR_SHARE_WITH_EMAIL cfg)) w1 of
                   (Err c, w2) \<Rightarrow> console_error ''Failed to share calendar'' w2
                 | (Ok, w2) \<Rightarrow>
                     on_sink (store_acl_rule calendarId (GOOGLE_CALENDAR_SHARE_WITH_EMAIL cfg))
                       w2)
              else w1))"

definition getGoogleEvents :: "nat \<Rightarrow> world \<Rightarrow> gevent list \<times> world" where
  "getGoogleEvents calendarId w =
     (case remote (EventsList calendarId) w of
        (Ok, w1) \<Rightarrow> (events_of (w_sink w1) calendarId, w1)
      | (Err c, w1) \<Rightarrow> ([], console_error ''Error fetching events for calendar'' w1))"

definition buildGoogleEvent :: "config \<Rightarrow> task \<Rightarrow> payload" where
  "buildGoogleEvent cfg task =
     (let viewLink = VIKUNJA_FRONTEND_URL cfg @ ''/projects/'' @ js_String (task_project_id task)
                       @ ''/tasks/'' @ js_String (task_id task)
      in \<lparr>summary = task_title task,
          description = (case task_description task of None \<Rightarrow> [] | Some d \<Rightarrow> d)
                          @ [CHR 0x0A, CHR 0x0A] @ ''View in Vikunja: '' @ viewLink,
          start_date = task_due_date task,
          end_date = map_option (\<lambda>d. d + 1) (task_due_date task),
          transparency = ''opaque'',
          vikunjaTaskId = js_String (task_id task)\<rparr>)"

section \<open>The sync cycle (lines 183 to 322)\<close>

text \<open>\<^verbatim>\<open>allGoogleEvents\<close>: task identifier string to the event with its
  \<^verbatim>\<open>calendarId\<close> (the pair's first component).\<close>

type_synonym event_index = "(string \<times> (nat \<times> gevent)) list"

subsection \<open>Step 2: one calendar per project (lines 204 to 215)\<close>

fun reconcileCalendars :: "config \<Rightarrow> project list \<Rightarrow> gcal list \<Rightarrow> world \<Rightarrow> gcal list \<times> world" where
  "reconcileCalendars cfg [] googleCalendars w = (googleCalendars, w)"
| "reconcileCalendars cfg (project # rest) googleCalendars w =
     (let expectedCalName = CALENDAR_PREFIX cfg @ '' '' @ project_title project in
      case find (\<lambda>cal. cal_summary cal = expectedCalName) googleCalendars of
        Some gCal \<Rightarrow> reconcileCalendars cfg rest googleCalendars w
      | None \<Rightarrow>
          (case createGoogleCalendar cfg (project_title project) w of
             (Some newCal, w1) \<Rightarrow>
               reconcileCalendars cfg rest (googleCalendars @ [newCal]) (delay 200 w1)
           | (None, w1) \<Rightarrow> reconcileCalendars cfg rest googleCalendars w1))"

subsection \<open>Verifying calendar permissions (lines 218 to 221)\<close>

fun verifyPermissions :: "config \<Rightarrow> gcal list \<Rightarrow> world \<Rightarrow> world" where
  "verifyPermissions cfg [] w = w"
| "verifyPermissions cfg (cal # rest) w =
     verifyPermissions cfg rest (delay 200 (ensureCalendarIsShared cfg (cal_id cal) w))"

subsection \<open>Step 3, indexing (lines 224 to 234)\<close>

text \<open>The body of \<^verbatim>\<open>events.forEach\<close>: a string is truthy when it is not empty.\<close>

definition indexEvent :: "nat \<Rightarrow> event_index \<Rightarrow> gevent \<Rightarrow> event_index" where
  "indexEvent calendarId allGoogleEvents event =
     (case ev_vikunjaTaskId event of
        None \<Rightarrow> allGoogleEvents
      | Some vikunjaId \<Rightarrow>
          if vikunjaId \<noteq> [] then Map_set vikunjaId (calendarId, event) allGoogleEvents
          else allGoogleEvents)"

fun indexCalendars :: "gcal list \<Rightarrow> event_index \<Rightarrow> world \<Rightarrow> event_index \<times> world" where
  "indexCalendars [] allGoogleEvents w = (allGoogleEvents, w)"
| "indexCalendars (cal # rest) allGoogleEvents w =
     (case getGoogleEvents (cal_id cal) w of
        (events, w1) \<Rightarrow>
          indexCalendars rest (foldl (indexEvent (cal_id cal)) allGoogleEvents events)
            (delay 200 w1))"

subsection \<open>Step 3, one uncompleted task (the loop body, lines 239 to 301)\<close>

definition deleteOldEvent :: "nat \<Rightarrow> gevent \<Rightarrow> world \<Rightarrow> world" where
  "deleteOldEvent calendarId ev w =
     (case remote (EventsDelete calendarId (ev_id ev)) w of
        (Ok, w1) \<Rightarrow> delay 200 (on_sink (store_event_delete calendarId (ev_id ev)) w1)
      | (Err c, w1) \<Rightarrow>
          if c \<noteq> 410 then console_error ''Failed to delete old event during move for task'' w1
          else w1)"

definition updateEvent :: "nat \<Rightarrow> gevent \<Rightarrow> payload \<Rightarrow> world \<Rightarrow> world" where
  "updateEvent calendarId ev eventPayload w =
     (case remote (EventsUpdate calendarId (ev_id ev) eventPayload) w of
        (Ok, w1) \<Rightarrow>
          delay 200 (on_sink (store_event_update calendarId (ev_id ev) eventPayload) w1)
      | (Err c, w1) \<Rightarrow> console_error ''Failed to update event for task'' w1)"

definition createEvent :: "nat \<Rightarrow> payload \<Rightarrow> world \<Rightarrow> world" where
  "createEvent calendarId eventPayload w =
     (case remote (EventsInsert calendarId eventPayload) w of
        (Ok, w1) \<Rightarrow> delay 200 (on_sink (store_event_insert calendarId eventPayload) w1)
      | (Err c, w1) \<Rightarrow> console_error ''Failed to create event for task'' w1)"

text \<open>Lines 259 to 288: what happens to an event found in the index. The first component
  of the result is the variable \<^verbatim>\<open>existingGEvent\<close> afterwards (\<open>None\<close> for
  \<^verbatim>\<open>null\<close>).\<close>

definition syncExisting ::
  "gcal \<Rightarrow> payload \<Rightarrow> task \<Rightarrow> nat \<times> gevent \<Rightarrow> world \<Rightarrow> (nat \<times> gevent) option \<times> world" where
  "syncExisting targetGCal eventPayload task existingGEvent w =
     (case existingGEvent of (calendarId, ev) \<Rightarrow>
        (let needsMove = (calendarId \<noteq> cal_id targetGCal);
             taskUpdated = task_updated_at task;
             eventUpdated = ev_updated ev
         in if needsMove \<or> taskUpdated > eventUpdated \<or> ev_transparency ev \<noteq> Some ''opaque''
            then (if needsMove then (None, deleteOldEvent calendarId ev w)
                  else (Some existingGEvent, updateEvent calendarId ev eventPayload w))
            else (Some existingGEvent, w)))"

definition resolveProject :: "(nat \<times> project) list \<Rightarrow> task \<Rightarrow> project option" where
  "resolveProject projectMap task =
     (case task_project task of Some p \<Rightarrow> Some p
      | None \<Rightarrow> Map_get projectMap (task_project_id task))"

definition syncTask ::
  "config \<Rightarrow> (nat \<times> project) list \<Rightarrow> gcal list \<Rightarrow> event_index \<Rightarrow> task \<Rightarrow> world \<Rightarrow> world" where
  "syncTask cfg projectMap googleCalendars allGoogleEvents task w =
     (let taskIdStr = js_String (task_id task);
          existingGEvent = Map_get allGoogleEvents taskIdStr
      in case resolveProject projectMap task of
           None \<Rightarrow> w
         | Some project \<Rightarrow>
             (let projectCalName = CALENDAR_PREFIX cfg @ '' '' @ project_title project in
              case find (\<lambda>cal. cal_summary cal = projectCalName) googleCalendars of
                None \<Rightarrow> w
              | Some targetGCal \<Rightarrow>
                  (let eventPayload = buildGoogleEvent cfg task in
                   case (case existingGEvent of
                           None \<Rightarrow> (None, w)
                         | Some found \<Rightarrow> syncExisting targetGCal eventPayload task found w) of
                     (None, w1) \<Rightarrow> createEvent (cal_id targetGCal) eventPayload w1
                   | (Some kept, w1) \<Rightarrow> w1)))"

fun syncTasks ::
  "config \<Rightarrow> (nat \<times> project) list \<Rightarrow> gcal list \<Rightarrow> event_index \<Rightarrow> task list \<Rightarrow> world \<Rightarrow> world" where
  "syncTasks cfg projectMap googleCalendars allGoogleEvents [] w = w"
| "syncTasks cfg projectMap googleCalendars allGoogleEvents (task # rest) w =
     syncTasks cfg projectMap googleCalendars allGoogleEvents rest
       (syncTask cfg projectMap googleCalendars allGoogleEvents task w)"

subsection \<open>Step 4: clean up deleted or completed tasks (lines 305 to 320)\<close>

definition deleteStaleEvent :: "nat \<times> gevent \<Rightarrow> world \<Rightarrow> world" where
  "deleteStaleEvent gEvent w =
     (case gEvent of (calendarId, ev) \<Rightarrow>
        (case remote (EventsDelete calendarId (ev_id ev)) w of
           (Ok, w1) \<Rightarrow> delay 200 (on_sink (store_event_delete calendarId (ev_id ev)) w1)
         | (Err c, w1) \<Rightarrow>
             if c \<noteq> 410 then console_error ''Failed to delete event'' w1 else w1))"

fun cleanUp :: "(string \<times> task) list \<Rightarrow> event_index \<Rightarrow> world \<Rightarrow> world" where
  "cleanUp vikunjaTaskMap [] w = w"
| "cleanUp vikunjaTaskMap ((vikunjaId, gEvent) # rest) w =
     cleanUp vikunjaTaskMap rest
       (if \<not> Map_has vikunjaTaskMap vikunjaId then deleteStaleEvent gEvent w else w)"

subsection \<open>The cycle from the fetched projects and tasks on (lines 193 to 320)\<close>

text \<open>Lines 193 and 204 to 221: the managed calendars, one calendar per project, the
  sharing rule on each.\<close>

definition calendarPhase :: "config \<Rightarrow> project list \<Rightarrow> world \<Rightarrow> gcal list \<times> world" where
  "calendarPhase cfg vikunjaProjects w =
     (case getManagedCalendars cfg w of
        (googleCalendars0, w1) \<Rightarrow>
          (case reconcileCalendars cfg vikunjaProjects googleCalendars0 w1 of
             (googleCalendars, w2) \<Rightarrow>
               (googleCalendars, verifyPermissions cfg googleCalendars w2)))"

text \<open>Lines 201 and 236 to 320: the two maps, the loop over the uncompleted tasks and the
  clean-up.\<close>

definition eventPhase ::
  "config \<Rightarrow> project list \<Rightarrow> task list \<Rightarrow> gcal list \<Rightarrow> event_index \<Rightarrow> world \<Rightarrow> world" where
  "eventPhase cfg vikunjaProjects uncompletedVikunjaTasks googleCalendars allGoogleEvents w =
     (let projectMap = new_Map (map (\<lambda>p. (project_id p, p)) vikunjaProjects);
          vikunjaTaskMap =
            new_Map (map (\<lambda>task. (js_String (task_id task), task)) uncompletedVikunjaTasks);
          w5 = syncTasks cfg projectMap googleCalendars allGoogleEvents
                 uncompletedVikunjaTasks w
      in cleanUp vikunjaTaskMap allGoogleEvents w5)"

definition syncCycle :: "config \<Rightarrow> project list \<Rightarrow> task list \<Rightarrow> world \<Rightarrow> world" where
  "syncCycle cfg vikunjaProjects vikunjaTasks w =
     (case calendarPhase cfg vikunjaProjects w of
        (googleCalendars, w3) \<Rightarrow>
          (case indexCalendars googleCalendars [] w3 of
             (allGoogleEvents, w4) \<Rightarrow>
               eventPhase cfg vikunjaProjects
                 (filter (\<lambda>task. \<not> task_done task) vikunjaTasks)
                 googleCalendars allGoogleEvents w4))"

section \<open>Reading the task source (lines 55 to 99) and the whole run\<close>

text \<open>
  The task source: the projects it lists, and for each page number the tasks of that page
  with the number that \<^verbatim>\<open>parseInt\<close> reads from the header
  \<^verbatim>\<open>x-pagination-total-pages\<close> (\<open>None\<close> when the header is absent or empty, where the
  program takes \<^verbatim>\<open>'1'\<close>).
\<close>

record source =
  src_projects :: "project list"
  src_tasks :: "nat \<Rightarrow> task list \<times> nat option"

definition getVikunjaProjects :: "source \<Rightarrow> world \<Rightarrow> project list \<times> world" where
  "getVikunjaProjects src w =
     (case remote ProjectsGet w of
        (Ok, w1) \<Rightarrow> (src_projects src, w1)
      | (Err c, w1) \<Rightarrow> ([], console_error ''Error fetching Vikunja projects:'' w1))"

text \<open>The \<^verbatim>\<open>while (hasMorePages)\<close> loop. It ends with \<open>None\<close> in the first
  component when a request throws, and it need not end at all: the result is an option.\<close>

partial_function (option) fetchTaskPages ::
  "source \<Rightarrow> nat \<Rightarrow> task list \<Rightarrow> world \<Rightarrow> (task list option \<times> world) option" where
  "fetchTaskPages src page allTasks w =
     (case remote (TasksGet page) w of
        (response, w1) \<Rightarrow>
          if response \<noteq> Ok then Some (None, w1)
          else (case src_tasks src page of
                  (tasks, header) \<Rightarrow>
                    (let allTasks' = allTasks @ tasks;
                         totalPages = (case header of None \<Rightarrow> 1 | Some n \<Rightarrow> n)
                     in if page < totalPages then fetchTaskPages src (page + 1) allTasks' w1
                        else Some (Some allTasks', w1))))"

declare fetchTaskPages.simps [code]

definition getVikunjaTasks :: "source \<Rightarrow> world \<Rightarrow> (task list \<times> world) option" where
  "getVikunjaTasks src w =
     (case fetchTaskPages src 1 [] w of
        None \<Rightarrow> None
      | Some (Some allTasks, w1) \<Rightarrow>
          Some (filter (\<lambda>task. task_due_date task \<noteq> None) allTasks, w1)
      | Some (None, w1) \<Rightarrow> Some ([], console_error ''Error fetching Vikunja tasks:'' w1))"

definition run :: "config \<Rightarrow> source \<Rightarrow> world \<Rightarrow> world option" where
  "run cfg src w =
     (case getVikunjaProjects src w of
        (vikunjaProjects, w1) \<Rightarrow>
          (case getVikunjaTasks src w1 of
             None \<Rightarrow> None
           | Some (vikunjaTasks, w2) \<Rightarrow> Some (syncCycle cfg vikunjaProjects vikunjaTasks w2)))"

text \<open>The number of pages that the response to page \<open>p\<close> announces, as the loop reads
  it.\<close>

definition totalPages :: "source \<Rightarrow> nat \<Rightarrow> nat" where
  "totalPages src p = (case snd (src_tasks src p) of None \<Rightarrow> 1 | Some n \<Rightarrow> n)"

section \<open>Reading the log\<close>

fun calls_of :: "entry list \<Rightarrow> call list" where
  "calls_of [] = []"
| "calls_of (Call c r # es) = c # calls_of es"
| "calls_of (e # es) = calls_of es"

fun mutating :: "call \<Rightarrow> bool" where
  "mutating (CalendarsInsert name) = True"
| "mutating (AclInsert cid who) = True"
| "mutating (EventsInsert cid p) = True"
| "mutating (EventsUpdate cid eid p) = True"
| "mutating (EventsDelete cid eid) = True"
| "mutating c = False"

text \<open>What a step from \<open>w\<close> to \<open>w'\<close> appended to the log, when the log only grew.\<close>

definition grows :: "world \<Rightarrow> world \<Rightarrow> bool" where
  "grows w w' \<longleftrightarrow> take (length (w_trace w)) (w_trace w') = w_trace w"

definition emitted :: "world \<Rightarrow> world \<Rightarrow> entry list" where
  "emitted w w' = drop (length (w_trace w)) (w_trace w')"

text \<open>Pacing as the specification words it: after a mutating call, accepted or rejected,
  a delay comes before the next mutating call.\<close>

fun delay_first :: "entry list \<Rightarrow> bool" where
  "delay_first [] = True"
| "delay_first (Delay ms # es) = True"
| "delay_first (Call c r # es) = (\<not> mutating c \<and> delay_first es)"
| "delay_first (ConsoleError msg # es) = delay_first es"

fun always_paced :: "entry list \<Rightarrow> bool" where
  "always_paced [] = True"
| "always_paced (Call c r # es) =
     ((if mutating c then delay_first es else True) \<and> always_paced es)"
| "always_paced (e # es) = always_paced es"

text \<open>Pacing as the program does it: an accepted mutating call is followed at once by
  the delay of 200 milliseconds.\<close>

fun paced :: "entry list \<Rightarrow> bool" where
  "paced [] = True"
| "paced (Call c Ok # es) =
     ((if mutating c then (case es of Delay ms # rest \<Rightarrow> ms = 200 | _ \<Rightarrow> False) else True)
      \<and> paced es)"
| "paced (e # es) = paced es"

text \<open>The share-calendar call, \<^verbatim>\<open>calendar.acl.insert\<close> of line 136: the delay of line
  220 stands after \<^verbatim>\<open>ensureCalendarIsShared\<close> has returned, outside its \<^verbatim>\<open>try\<close>
  block.\<close>

fun share_call :: "call \<Rightarrow> bool" where
  "share_call (AclInsert cid who) = True"
| "share_call c = False"

text \<open>The next thing the program does to a remote service is the delay of 200
  milliseconds: only console errors come before it.\<close>

fun delay_ahead :: "entry list \<Rightarrow> bool" where
  "delay_ahead [] = False"
| "delay_ahead (Delay ms # es) = (ms = 200)"
| "delay_ahead (ConsoleError msg # es) = delay_ahead es"
| "delay_ahead (Call c r # es) = False"

text \<open>A share-calendar call, accepted or rejected, is followed by the delay before the
  next call.\<close>

fun share_paced :: "entry list \<Rightarrow> bool" where
  "share_paced [] = True"
| "share_paced (Call c r # es) =
     ((if share_call c then delay_ahead es else True) \<and> share_paced es)"
| "share_paced (e # es) = share_paced es"

definition paced_step :: "world \<Rightarrow> world \<Rightarrow> bool" where
  "paced_step w w' \<longleftrightarrow>
     grows w w' \<and> paced (emitted w w') \<and> share_paced (emitted w w')"

text \<open>The event a call writes to: the calendar and the event identifier of an update or
  a delete.\<close>

fun event_target :: "call \<Rightarrow> (nat \<times> nat) option" where
  "event_target (EventsUpdate cid eid p) = Some (cid, eid)"
| "event_target (EventsDelete cid eid) = Some (cid, eid)"
| "event_target c = None"

text \<open>A step that only grew the log, wrote to no event and left the events of every
  calendar as they were.\<close>

definition quiet :: "world \<Rightarrow> world \<Rightarrow> bool" where
  "quiet w w' \<longleftrightarrow>
     grows w w' \<and> list_all (\<lambda>c. event_target c = None) (calls_of (emitted w w'))
     \<and> (\<forall>cid. events_of (w_sink w') cid = events_of (w_sink w) cid)"

text \<open>Every entry of the index is an event of its calendar that carries the key as its
  task identifier.\<close>

definition tagged_in :: "(nat \<Rightarrow> gevent list) \<Rightarrow> event_index \<Rightarrow> bool" where
  "tagged_in E idx \<longleftrightarrow>
     (\<forall>(vikunjaId, calendarId, ev) \<in> set idx.
        ev \<in> set (E calendarId) \<and> ev_vikunjaTaskId ev = Some vikunjaId \<and> vikunjaId \<noteq> [])"

section \<open>The state of the calendar service\<close>




text \<open>The events of the given calendars that carry a non-empty task identifier, each with
  the identifier and its calendar, in listing order.\<close>

definition tag_keys :: "gevent \<Rightarrow> string list" where
  "tag_keys e = (case ev_vikunjaTaskId e of None \<Rightarrow> [] | Some k \<Rightarrow> if k = [] then [] else [k])"

definition entries :: "gcal list \<Rightarrow> sink \<Rightarrow> event_index" where
  "entries cals s =
     concat (map (\<lambda>cal. concat (map (\<lambda>e. map (\<lambda>k. (k, cal_id cal, e)) (tag_keys e))
                                   (events_of s (cal_id cal)))) cals)"





text \<open>The staleness test of line 264, the move apart.\<close>

definition stale :: "task \<Rightarrow> gevent \<Rightarrow> bool" where
  "stale task ev \<longleftrightarrow>
     task_updated_at task > ev_updated ev \<or> ev_transparency ev \<noteq> Some ''opaque''"









section \<open>The decision table of the specification\<close>

text \<open>
  The calls the specification (section 4.3) asks for on one uncompleted task, written from
  its words: nothing when the project or the target calendar does not resolve; a create
  when no event is indexed; a delete of the stale event and a create when the indexed
  event is in another calendar; an update when it is in the target calendar and stale
  (the task modified strictly later, or the transparency not opaque); nothing otherwise.
\<close>

definition plannedCalls ::
  "config \<Rightarrow> (nat \<times> project) list \<Rightarrow> gcal list \<Rightarrow> event_index \<Rightarrow> task \<Rightarrow> call list" where
  "plannedCalls cfg projectMap googleCalendars allGoogleEvents task =
     (case resolveProject projectMap task of
        None \<Rightarrow> []
      | Some project \<Rightarrow>
          (case find (\<lambda>cal. cal_summary cal = CALENDAR_PREFIX cfg @ '' '' @ project_title project)
                  googleCalendars of
             None \<Rightarrow> []
           | Some targetGCal \<Rightarrow>
               (case Map_get allGoogleEvents (js_String (task_id task)) of
                  None \<Rightarrow> [EventsInsert (cal_id targetGCal) (buildGoogleEvent cfg task)]
                | Some (calendarId, ev) \<Rightarrow>
                    if calendarId \<noteq> cal_id targetGCal
                    then [EventsDelete calendarId (ev_id ev),
                          EventsInsert (cal_id targetGCal) (buildGoogleEvent cfg task)]
                    else if task_updated_at task > ev_updated ev
                            \<or> ev_transparency ev \<noteq> Some ''opaque''
                    then [EventsUpdate calendarId (ev_id ev) (buildGoogleEvent cfg task)]
                    else [])))"

section \<open>A concrete scenario\<close>

text \<open>The example of the specification: task 42 ``Report'' of project 7 ``Ops'', due on
  2024-03-01 (day 19783 of the epoch), with the calendars ``[V] Ops'' and ``[V] Old''.\<close>

definition ex_cfg :: config where
  "ex_cfg = \<lparr>CALENDAR_PREFIX = ''[V]'', VIKUNJA_FRONTEND_URL = ''https://v.example'',
             GOOGLE_CALENDAR_SHARE_WITH_EMAIL = ''me@example.org''\<rparr>"

definition ex_project :: project where
  "ex_project = \<lparr>project_id = 7, project_title = ''Ops''\<rparr>"

definition ex_projectMap :: "(nat \<times> project) list" where
  "ex_projectMap = new_Map (map (\<lambda>p. (project_id p, p)) [ex_project])"

definition ex_task :: task where
  "ex_task = \<lparr>task_id = 42, task_title = ''Report'', task_description = None,
              task_due_date = Some 19783, task_done = False, task_updated_at = 1000,
              task_project_id = 7, task_project = None\<rparr>"

definition ex_cals :: "gcal list" where
  "ex_cals = [\<lparr>cal_id = 0, cal_summary = ''[V] Ops''\<rparr>, \<lparr>cal_id = 1, cal_summary = ''[V] Old''\<rparr>]"

definition ex_event :: "string \<Rightarrow> instant \<Rightarrow> gevent" where
  "ex_event tr updated =
     \<lparr>ev_id = 5, ev_summary = ''Report'', ev_description = ''old'', ev_start = Some 19783,
      ev_end = Some 19784, ev_transparency = Some tr, ev_vikunjaTaskId = Some ''42'',
      ev_updated = updated\<rparr>"

definition ex_store :: "rcalendar list" where
  "ex_store =
     [\<lparr>rc_id = 0, rc_summary = ''[V] Ops'', rc_acl = [''me@example.org''], rc_events = []\<rparr>,
      \<lparr>rc_id = 1, rc_summary = ''[V] Old'', rc_acl = [''me@example.org''],
        rc_events = [ex_event ''opaque'' 3000]\<rparr>]"

definition ex_index :: event_index where
  "ex_index = [(''42'', 1, ex_event ''opaque'' 3000),
               (''99'', 1, (ex_event ''opaque'' 3000)\<lparr>ev_id := 6, ev_vikunjaTaskId := Some ''99''\<rparr>)]"

definition ex_source :: source where
  "ex_source = \<lparr>src_projects = [ex_project], src_tasks = (\<lambda>p. ([ex_task], Some 1))\<rparr>"

definition ex_source2 :: source where
  "ex_source2 = \<lparr>src_projects = [ex_project], src_tasks = (\<lambda>p. ([ex_task], Some 2))\<rparr>"

definition ex_untagged :: gevent where
  "ex_untagged =
     \<lparr>ev_id = 8, ev_summary = ''Lunch'', ev_description = [], ev_start = Some 19783,
      ev_end = Some 19784, ev_transparency = None, ev_vikunjaTaskId = None,
      ev_updated = 500\<rparr>"

definition ex_store2 :: "rcalendar list" where
  "ex_store2 =
     [\<lparr>rc_id = 0, rc_summary = ''[V] Ops'', rc_acl = [''me@example.org''],
        rc_events = [ex_untagged,
                     (ex_event ''opaque'' 3000)\<lparr>ev_id := 6, ev_vikunjaTaskId := Some ''99''\<rparr>]\<rparr>]"

definition ex_world :: "rcalendar list \<Rightarrow> outcome list \<Rightarrow> world" where
  "ex_world cals faults =
     \<lparr>w_sink = \<lparr>s_calendars = cals, s_next = 10, s_now = 2000\<rparr>, w_faults = faults,
      w_trace = []\<rparr>"




section \<open>What each step writes to the log\<close>

lemma calls_of_append: "calls_of (a @ b) = calls_of a @ calls_of b"
  by (induction a rule: calls_of.induct) auto

lemma fst_remote: "fst (remote c w) = next_outcome w"
  by (simp add: remote_def)

lemma trace_remote: "w_trace (snd (remote c w)) = w_trace w @ [Call c (next_outcome w)]"
  by (simp add: remote_def)

lemma trace_delay: "w_trace (delay ms w) = w_trace w @ [Delay ms]"
  by (simp add: delay_def)

lemma trace_console_error: "w_trace (console_error msg w) = w_trace w @ [ConsoleError msg]"
  by (simp add: console_error_def)

lemma trace_store:
  "w_trace (on_sink f w) = w_trace w"
  "w_trace (w\<lparr>w_sink := s\<rparr>) = w_trace w"
  by (simp_all add: on_sink_def)

lemma calls_deleteOldEvent:
  "calls_of (w_trace (deleteOldEvent cid ev w)) =
     calls_of (w_trace w) @ [EventsDelete cid (ev_id ev)]"
  by (simp add: deleteOldEvent_def remote_def delay_def console_error_def
        on_sink_def calls_of_append split: outcome.splits)

lemma calls_updateEvent:
  "calls_of (w_trace (updateEvent cid ev p w)) =
     calls_of (w_trace w) @ [EventsUpdate cid (ev_id ev) p]"
  by (simp add: updateEvent_def remote_def delay_def console_error_def
        on_sink_def calls_of_append split: outcome.splits)

lemma calls_createEvent:
  "calls_of (w_trace (createEvent cid p w)) = calls_of (w_trace w) @ [EventsInsert cid p]"
  by (simp add: createEvent_def remote_def delay_def console_error_def
        on_sink_def calls_of_append split: outcome.splits)

lemma calls_syncTask:
  "calls_of (w_trace (syncTask cfg pm cals idx task w)) =
     calls_of (w_trace w) @ plannedCalls cfg pm cals idx task"
  by (simp add: syncTask_def syncExisting_def plannedCalls_def Let_def
        calls_deleteOldEvent calls_updateEvent calls_createEvent
      split: option.splits prod.splits)

lemma calls_syncTasks:
  "calls_of (w_trace (syncTasks cfg pm cals idx ts w)) =
     calls_of (w_trace w) @ concat (map (plannedCalls cfg pm cals idx) ts)"
  by (induction ts arbitrary: w) (simp_all add: calls_syncTask)

lemma js_String_42: "js_String 42 = ''42''"
  by code_simp

lemma js_String_7: "js_String 7 = ''7''"
  by code_simp

lemma ex_resolve: "resolveProject ex_projectMap ex_task = Some ex_project"
  by code_simp

lemma ex_find:
  "find (\<lambda>cal. cal_summary cal = CALENDAR_PREFIX ex_cfg @ '' '' @ project_title ex_project)
     ex_cals = Some \<lparr>cal_id = 0, cal_summary = ''[V] Ops''\<rparr>"
  by code_simp

lemma grows_refl: "grows w w"
  by (simp add: grows_def)

lemma grows_iff: "grows w w' \<longleftrightarrow> w_trace w' = w_trace w @ emitted w w'"
  by (metis append_take_drop_id emitted_def grows_def append_eq_conv_conj)

lemma growsI: "w_trace w' = w_trace w @ es \<Longrightarrow> grows w w'"
  by (simp add: grows_def)

lemma emittedI: "w_trace w' = w_trace w @ es \<Longrightarrow> emitted w w' = es"
  by (simp add: emitted_def)

lemma grows_trans: "grows a b \<Longrightarrow> grows b c \<Longrightarrow> grows a c"
  by (metis append.assoc grows_iff growsI)

lemma emitted_trans: "grows a b \<Longrightarrow> grows b c \<Longrightarrow> emitted a c = emitted a b @ emitted b c"
  by (metis append.assoc grows_iff emittedI)

lemma emitted_refl: "emitted w w = []"
  by (simp add: emitted_def)

lemma calls_emitted:
  "grows w w' \<Longrightarrow> calls_of (w_trace w') = calls_of (w_trace w) @ cs
     \<Longrightarrow> calls_of (emitted w w') = cs"
  by (metis grows_iff calls_of_append same_append_eq)

lemma paced_append: "paced a \<Longrightarrow> paced b \<Longrightarrow> paced (a @ b)"
  by (induction a rule: paced.induct) (auto split: list.splits entry.splits)

lemma delay_ahead_append: "delay_ahead a \<Longrightarrow> delay_ahead (a @ b)"
  by (induction a rule: delay_ahead.induct) simp_all

lemma share_paced_append: "share_paced a \<Longrightarrow> share_paced b \<Longrightarrow> share_paced (a @ b)"
  by (induction a rule: share_paced.induct) (simp_all add: delay_ahead_append)

lemma paced_step_refl: "paced_step w w"
  by (simp add: paced_step_def grows_refl emitted_refl)

lemma paced_step_trans: "paced_step a b \<Longrightarrow> paced_step b c \<Longrightarrow> paced_step a c"
  by (auto simp: paced_step_def emitted_trans paced_append share_paced_append
        intro: grows_trans)

lemma paced_stepI:
  "w_trace w' = w_trace w @ es \<Longrightarrow> paced es \<and> share_paced es \<Longrightarrow> paced_step w w'"
  by (simp add: paced_step_def growsI emittedI)

lemmas world_ops = remote_def next_outcome_def delay_def console_error_def on_sink_def
  store_calendar_def

section \<open>Pacing of each step\<close>

lemma paced_deleteOldEvent: "paced_step w (deleteOldEvent cid ev w)"
  by (rule paced_stepI[where es = "emitted w (deleteOldEvent cid ev w)"])
     (auto simp: deleteOldEvent_def emitted_def world_ops split: outcome.splits list.splits)

lemma paced_updateEvent: "paced_step w (updateEvent cid ev p w)"
  by (rule paced_stepI[where es = "emitted w (updateEvent cid ev p w)"])
     (auto simp: updateEvent_def emitted_def world_ops split: outcome.splits list.splits)

lemma paced_createEvent: "paced_step w (createEvent cid p w)"
  by (rule paced_stepI[where es = "emitted w (createEvent cid p w)"])
     (auto simp: createEvent_def emitted_def world_ops split: outcome.splits list.splits)

lemma paced_deleteStaleEvent: "paced_step w (deleteStaleEvent g w)"
  by (rule paced_stepI[where es = "emitted w (deleteStaleEvent g w)"])
     (auto simp: deleteStaleEvent_def emitted_def world_ops split: outcome.splits list.splits prod.splits)

lemma paced_syncTask: "paced_step w (syncTask cfg pm cals idx task w)"
  by (auto simp: syncTask_def syncExisting_def Let_def paced_step_refl paced_createEvent
        paced_updateEvent
      intro: paced_step_trans[OF paced_deleteOldEvent paced_createEvent]
      split: option.splits prod.splits if_splits)

lemma paced_syncTasks: "paced_step w (syncTasks cfg pm cals idx ts w)"
  by (induction ts arbitrary: w)
     (auto simp: paced_step_refl intro: paced_step_trans[OF paced_syncTask])

lemma paced_cleanUp: "paced_step w (cleanUp m idx w)"
proof (induction idx arbitrary: w)
  case Nil
  show ?case by (simp add: paced_step_refl)
next
  case (Cons entry rest)
  obtain k g where entry: "entry = (k, g)" by (cases entry)
  show ?case
    using paced_step_trans[OF paced_deleteStaleEvent Cons] Cons
    by (simp add: entry)
qed

lemma paced_eventPhase: "paced_step w (eventPhase cfg ps ts cals idx w)"
  by (simp add: eventPhase_def Let_def paced_step_trans[OF paced_syncTasks paced_cleanUp])

lemma paced_getGoogleEvents: "paced_step w (snd (getGoogleEvents cid w))"
  by (rule paced_stepI[where es = "emitted w (snd (getGoogleEvents cid w))"])
     (auto simp: getGoogleEvents_def emitted_def world_ops split: outcome.splits list.splits)

lemma paced_delay: "paced_step w (delay ms w)"
  by (rule paced_stepI[where es = "[Delay ms]"]) (auto simp: delay_def)

lemma paced_indexCalendars: "paced_step w (snd (indexCalendars cals idx w))"
proof (induction cals arbitrary: idx w)
  case Nil
  show ?case by (simp add: paced_step_refl)
next
  case (Cons cal rest)
  show ?case
    using paced_step_trans[OF paced_step_trans[OF paced_getGoogleEvents paced_delay] Cons]
    by (auto split: prod.splits) (metis snd_conv)
qed

lemma paced_ensureCalendarIsShared_delay:
  "paced_step w (delay 200 (ensureCalendarIsShared cfg cid w))"
  by (rule paced_stepI[where es = "emitted w (delay 200 (ensureCalendarIsShared cfg cid w))"])
     (auto simp: ensureCalendarIsShared_def emitted_def world_ops Let_def
        split: outcome.splits list.splits)

lemma paced_verifyPermissions: "paced_step w (verifyPermissions cfg cals w)"
  by (induction cals arbitrary: w)
     (auto simp: paced_step_refl intro: paced_step_trans[OF paced_ensureCalendarIsShared_delay])

lemma paced_createGoogleCalendar:
  "paced_step w (case createGoogleCalendar cfg name w of
                   (Some newCal, w1) \<Rightarrow> delay 200 w1 | (None, w1) \<Rightarrow> w1)"
  by (rule paced_stepI[where es = "emitted w (case createGoogleCalendar cfg name w of
                   (Some newCal, w1) \<Rightarrow> delay 200 w1 | (None, w1) \<Rightarrow> w1)"])
     (auto simp: createGoogleCalendar_def emitted_def world_ops Let_def
        split: outcome.splits list.splits)

lemma paced_reconcileCalendars: "paced_step w (snd (reconcileCalendars cfg ps cals w))"
proof (induction ps arbitrary: cals w)
  case Nil
  show ?case by (simp add: paced_step_refl)
next
  case (Cons p ps)
  show ?case
    using paced_step_trans[OF paced_createGoogleCalendar[of w cfg "project_title p"] Cons]
    by (auto simp: Let_def Cons split: option.splits prod.splits)
qed

lemma paced_getManagedCalendars: "paced_step w (snd (getManagedCalendars cfg w))"
  by (rule paced_stepI[where es = "emitted w (snd (getManagedCalendars cfg w))"])
     (auto simp: getManagedCalendars_def emitted_def world_ops split: outcome.splits list.splits)

lemma paced_calendarPhase: "paced_step w (snd (calendarPhase cfg ps w))"
  using paced_step_trans[OF paced_step_trans[OF paced_getManagedCalendars paced_reconcileCalendars] paced_verifyPermissions]
  by (auto simp: calendarPhase_def split: prod.splits) (metis fst_conv snd_conv)

lemma paced_syncCycle: "paced_step w (syncCycle cfg ps ts w)"
  using paced_step_trans[OF paced_step_trans[OF paced_calendarPhase paced_indexCalendars] paced_eventPhase]
  by (auto simp: syncCycle_def split: prod.splits) (metis fst_conv snd_conv)

section \<open>The calls of the event phase\<close>

lemma keys_Map_set: "fst ` set (Map_set k v m) = insert k (fst ` set m)"
  by (induction m) (force split: if_splits)+

lemma keys_foldl_Map_set:
  "fst ` set (foldl (\<lambda>m (k, v). Map_set k v m) acc es) = fst ` set acc \<union> fst ` set es"
proof (induction es arbitrary: acc)
  case Nil
  show ?case by simp
next
  case (Cons e es)
  obtain k v where e: "e = (k, v)" by (cases e)
  show ?case by (simp add: e Cons keys_Map_set)
qed

lemma keys_new_Map: "fst ` set (new_Map es) = fst ` set es"
  by (simp add: new_Map_def keys_foldl_Map_set)

lemma Map_has_iff: "Map_has m k \<longleftrightarrow> k \<in> fst ` set m"
  by (simp add: Map_has_def map_of_eq_None_iff)

lemma Map_has_vikunjaTaskMap:
  "Map_has (new_Map (map (\<lambda>task. (js_String (task_id task), task)) ts)) k
     \<longleftrightarrow> k \<in> (\<lambda>task. js_String (task_id task)) ` set ts"
  by (simp add: Map_has_iff keys_new_Map image_image)

lemma paced_step_grows: "paced_step w w' \<Longrightarrow> grows w w'"
  by (simp add: paced_step_def)

lemma emitted_deleteStaleEvent:
  "emitted w (deleteStaleEvent (calendarId, ev) w) =
     Call (EventsDelete calendarId (ev_id ev)) (next_outcome w) #
     (case next_outcome w of
        Ok \<Rightarrow> [Delay 200]
      | Err c \<Rightarrow> if c = 410 then [] else [ConsoleError ''Failed to delete event''])"
  by (simp add: deleteStaleEvent_def emitted_def remote_def delay_def console_error_def
        on_sink_def split: outcome.splits)

lemma calls_deleteStaleEvent:
  "calls_of (w_trace (deleteStaleEvent g w)) =
     calls_of (w_trace w) @ [EventsDelete (fst g) (ev_id (snd g))]"
  by (cases g)
     (simp add: deleteStaleEvent_def remote_def delay_def console_error_def
        on_sink_def calls_of_append split: outcome.splits)

lemma calls_cleanUp:
  "calls_of (w_trace (cleanUp m idx w)) =
     calls_of (w_trace w) @
     [EventsDelete calendarId (ev_id ev). (vikunjaId, calendarId, ev) \<leftarrow> idx, \<not> Map_has m vikunjaId]"
  by (induction idx arbitrary: w) (auto simp: calls_deleteStaleEvent)

lemma calls_eventPhase:
  "calls_of (emitted w (eventPhase cfg ps ts cals idx w)) =
     concat (map (plannedCalls cfg (new_Map (map (\<lambda>p. (project_id p, p)) ps)) cals idx) ts)
     @ [EventsDelete calendarId (ev_id ev). (vikunjaId, calendarId, ev) \<leftarrow> idx,
          vikunjaId \<notin> (\<lambda>task. js_String (task_id task)) ` set ts]"
  by (rule calls_emitted[OF paced_step_grows[OF paced_eventPhase]])
     (simp add: eventPhase_def Let_def calls_cleanUp calls_syncTasks Map_has_vikunjaTaskMap)

lemma planned_inserts:
  "EventsInsert c p \<in> set (plannedCalls cfg pm cals idx task)
     \<Longrightarrow> p = buildGoogleEvent cfg task"
  by (auto simp: plannedCalls_def split: option.splits if_splits)

section \<open>Identifiers as strings\<close>

lemma digit_inj: "a < 10 \<Longrightarrow> b < 10 \<Longrightarrow> digit a = digit b \<Longrightarrow> a = b"
  by (simp add: digit_def char_of_eq_iff take_bit_eq_mod)

lemma js_String_not_Nil: "js_String n \<noteq> []"
  by (subst js_String.simps) simp

lemma js_String_inj: "js_String n = js_String m \<Longrightarrow> n = m"
proof (induction n arbitrary: m rule: js_String.induct)
  case (1 n)
  show ?case
  proof (cases "n < 10")
    case True
    then have "m < 10"
      using "1.prems" js_String_not_Nil[of "m div 10"]
      by (subst (asm) js_String.simps, subst (asm) (2) js_String.simps) (auto split: if_splits)
    with True "1.prems" show ?thesis
      by (subst (asm) js_String.simps, subst (asm) (2) js_String.simps) (auto dest: digit_inj)
  next
    case False
    then have m: "\<not> m < 10"
      using "1.prems" js_String_not_Nil[of "n div 10"]
      by (subst (asm) js_String.simps, subst (asm) (2) js_String.simps) (auto split: if_splits)
    from False m "1.prems"
    have "js_String (n div 10) = js_String (m div 10)" and "digit (n mod 10) = digit (m mod 10)"
      by (subst (asm) js_String.simps, subst (asm) (2) js_String.simps, simp)+
    then have "n div 10 = m div 10" and "n mod 10 = m mod 10"
      using "1.IH"[OF False, of "m div 10"] digit_inj[of "n mod 10" "m mod 10"] by simp_all
    then show ?thesis by (metis div_mult_mod_eq)
  qed
qed

lemma planned_shape:
  "c \<in> set (plannedCalls cfg pm cals idx task) \<Longrightarrow>
     (\<exists>cid. c = EventsInsert cid (buildGoogleEvent cfg task))
     \<or> (\<exists>cid e. Map_get idx (js_String (task_id task)) = Some (cid, e)
           \<and> (c = EventsDelete cid (ev_id e)
                \<or> c = EventsUpdate cid (ev_id e) (buildGoogleEvent cfg task)))"
  by (simp add: plannedCalls_def split: option.splits if_splits prod.splits) blast+

lemma planned_skip:
  "resolveProject pm task = None
     \<or> (\<exists>project. resolveProject pm task = Some project
           \<and> find (\<lambda>cal. cal_summary cal = CALENDAR_PREFIX cfg @ '' '' @ project_title project)
                cals = None)
   \<Longrightarrow> plannedCalls cfg pm cals idx task = []"
  by (auto simp: plannedCalls_def)

lemma syncTask_skip:
  "resolveProject pm task = None
     \<or> (\<exists>project. resolveProject pm task = Some project
           \<and> find (\<lambda>cal. cal_summary cal = CALENDAR_PREFIX cfg @ '' '' @ project_title project)
                cals = None)
   \<Longrightarrow> syncTask cfg pm cals idx task w = w"
  by (auto simp: syncTask_def Let_def)

lemma distinct_map_eq:
  "distinct (map f xs) \<Longrightarrow> x \<in> set xs \<Longrightarrow> y \<in> set xs \<Longrightarrow> f x = f y \<Longrightarrow> x = y"
  by (meson distinct_map inj_on_def)

lemma Map_get_in_set: "Map_get m k = Some v \<Longrightarrow> (k, v) \<in> set m"
  by (simp add: Map_get_def map_of_SomeD)

section \<open>The calendar phase and the indexing write to no event\<close>

lemma quiet_refl: "quiet w w"
  by (simp add: quiet_def grows_refl emitted_refl)

lemma quiet_trans:
  assumes "quiet a b" and "quiet b c"
  shows "quiet a c"
proof -
  have g: "grows a b" "grows b c" using assms by (simp_all add: quiet_def)
  have "grows a c" using g by (rule grows_trans)
  moreover have "list_all (\<lambda>c. event_target c = None) (calls_of (emitted a c))"
    using assms by (simp add: quiet_def emitted_trans[OF g] calls_of_append)
  moreover have "events_of (w_sink c) cid = events_of (w_sink a) cid" for cid
    using assms by (simp add: quiet_def)
  ultimately show ?thesis by (simp add: quiet_def)
qed

lemma quietI:
  "w_trace w' = w_trace w @ es \<Longrightarrow> list_all (\<lambda>c. event_target c = None) (calls_of es)
     \<Longrightarrow> (\<And>cid. events_of (w_sink w') cid = events_of (w_sink w) cid) \<Longrightarrow> quiet w w'"
  by (simp add: quiet_def growsI emittedI)

lemma sink_basic:
  "w_sink (snd (remote c w)) = w_sink w"
  "w_sink (delay ms w) = w_sink w"
  "w_sink (console_error msg w) = w_sink w"
  "w_sink (on_sink f w) = f (w_sink w)"
  "w_sink (w\<lparr>w_sink := s\<rparr>) = s"
  by (simp_all add: remote_def delay_def console_error_def on_sink_def)

lemma events_of_store_acl_rule: "events_of (store_acl_rule c who s) = events_of s"
proof (rule ext)
  fix cid
  have h: "concat (map rc_events (filter (\<lambda>rc. rc_id rc = cid)
          (map (\<lambda>rc. if rc_id rc = c then rc\<lparr>rc_acl := rc_acl rc @ [who]\<rparr> else rc) cs)))
        = concat (map rc_events (filter (\<lambda>rc. rc_id rc = cid) cs))" for cs
    by (induction cs) auto
  have c: "s_calendars (store_acl_rule c who s) =
        map (\<lambda>rc. if rc_id rc = c then rc\<lparr>rc_acl := rc_acl rc @ [who]\<rparr> else rc) (s_calendars s)"
    by (simp add: store_acl_rule_def in_calendar_def)
  show "events_of (store_acl_rule c who s) cid = events_of s cid"
    unfolding events_of_def c h ..
qed

lemma events_of_store_calendar: "events_of (snd (store_calendar name s)) = events_of s"
  by (simp add: events_of_def store_calendar_def fun_eq_iff)

lemmas events_of_quiet = sink_basic events_of_store_acl_rule events_of_store_calendar

lemma quiet_getManagedCalendars: "quiet w (snd (getManagedCalendars cfg w))"
  by (rule quietI[where es = "emitted w (snd (getManagedCalendars cfg w))"])
     (auto simp: getManagedCalendars_def emitted_def split_beta fst_remote trace_remote
        trace_console_error events_of_quiet split: outcome.splits)

lemma quiet_createGoogleCalendar:
  "quiet w (case createGoogleCalendar cfg name w of
              (Some newCal, w1) \<Rightarrow> delay 200 w1 | (None, w1) \<Rightarrow> w1)"
  by (rule quietI[where es = "emitted w (case createGoogleCalendar cfg name w of
                   (Some newCal, w1) \<Rightarrow> delay 200 w1 | (None, w1) \<Rightarrow> w1)"])
     (auto simp: createGoogleCalendar_def emitted_def split_beta fst_remote trace_remote
        trace_console_error trace_delay trace_store events_of_quiet Let_def
        split: outcome.splits)

lemma quiet_reconcileCalendars: "quiet w (snd (reconcileCalendars cfg ps cals w))"
proof (induction ps arbitrary: cals w)
  case Nil
  show ?case by (simp add: quiet_refl)
next
  case (Cons p ps)
  show ?case
    using quiet_trans[OF quiet_createGoogleCalendar[of w cfg "project_title p"] Cons]
    by (auto simp: Let_def Cons split: option.splits prod.splits)
qed

lemma quiet_ensureCalendarIsShared_delay:
  "quiet w (delay 200 (ensureCalendarIsShared cfg cid w))"
  by (rule quietI[where es = "emitted w (delay 200 (ensureCalendarIsShared cfg cid w))"])
     (auto simp: ensureCalendarIsShared_def emitted_def split_beta fst_remote trace_remote
        trace_console_error trace_delay trace_store events_of_quiet Let_def
        split: outcome.splits)

lemma quiet_verifyPermissions: "quiet w (verifyPermissions cfg cals w)"
  by (induction cals arbitrary: w)
     (auto simp: quiet_refl intro: quiet_trans[OF quiet_ensureCalendarIsShared_delay])

lemma quiet_calendarPhase: "quiet w (snd (calendarPhase cfg ps w))"
  using quiet_trans[OF quiet_trans[OF quiet_getManagedCalendars quiet_reconcileCalendars]
          quiet_verifyPermissions]
  by (auto simp: calendarPhase_def split: prod.splits) (metis fst_conv snd_conv)

lemma quiet_getGoogleEvents_delay: "quiet w (delay 200 (snd (getGoogleEvents cid w)))"
  by (rule quietI[where es = "emitted w (delay 200 (snd (getGoogleEvents cid w)))"])
     (auto simp: getGoogleEvents_def emitted_def split_beta fst_remote trace_remote
        trace_console_error trace_delay events_of_quiet split: outcome.splits)

lemma listed_events: "set (fst (getGoogleEvents cid w)) \<subseteq> set (events_of (w_sink w) cid)"
  by (auto simp: getGoogleEvents_def split_beta events_of_quiet split: outcome.splits)

lemma set_Map_set: "set (Map_set k v m) \<subseteq> insert (k, v) (set m)"
  by (induction m) (auto split: if_splits)

lemma tagged_Map_set:
  "tagged_in E idx \<Longrightarrow> e \<in> set (E cid) \<Longrightarrow> ev_vikunjaTaskId e = Some k \<Longrightarrow> k \<noteq> []
     \<Longrightarrow> tagged_in E (Map_set k (cid, e) idx)"
  using set_Map_set[of k "(cid, e)" idx] by (fastforce simp: tagged_in_def)

lemma tagged_indexEvent:
  "tagged_in E idx \<Longrightarrow> e \<in> set (E cid) \<Longrightarrow> tagged_in E (indexEvent cid idx e)"
  by (simp add: indexEvent_def tagged_Map_set split: option.splits)

lemma tagged_foldl:
  "tagged_in E idx \<Longrightarrow> set es \<subseteq> set (E cid) \<Longrightarrow> tagged_in E (foldl (indexEvent cid) idx es)"
  by (induction es arbitrary: idx) (auto simp: tagged_indexEvent)

lemma indexCalendars_quiet_tagged:
  "quiet w (snd (indexCalendars cals idx w))
   \<and> (tagged_in (events_of (w_sink w)) idx
        \<longrightarrow> tagged_in (events_of (w_sink w)) (fst (indexCalendars cals idx w)))"
proof (induction cals arbitrary: idx w)
  case Nil
  show ?case by (simp add: quiet_refl)
next
  case (Cons cal rest)
  let ?w1 = "delay 200 (snd (getGoogleEvents (cal_id cal) w))"
  let ?idx1 = "foldl (indexEvent (cal_id cal)) idx (fst (getGoogleEvents (cal_id cal) w))"
  have q: "quiet w ?w1" by (rule quiet_getGoogleEvents_delay)
  then have E: "events_of (w_sink ?w1) = events_of (w_sink w)" by (auto simp: quiet_def)
  have step: "indexCalendars (cal # rest) idx w = indexCalendars rest ?idx1 ?w1"
    by (simp add: split_beta)
  have "tagged_in (events_of (w_sink w)) ?idx1" if "tagged_in (events_of (w_sink w)) idx"
    using that listed_events by (rule tagged_foldl)
  moreover have "quiet w (snd (indexCalendars rest ?idx1 ?w1))"
    using q Cons[of ?w1 ?idx1] by (blast intro: quiet_trans)
  moreover have "tagged_in (events_of (w_sink w)) ?idx1
      \<longrightarrow> tagged_in (events_of (w_sink w)) (fst (indexCalendars rest ?idx1 ?w1))"
    using Cons[of ?w1 ?idx1] unfolding E by blast
  ultimately show ?case
    unfolding step by blast
qed

lemma tagged_Nil: "tagged_in E []"
  by (simp add: tagged_in_def)

lemma eventPhase_targets:
  assumes "tagged_in E idx"
    and "c \<in> set (calls_of (emitted w (eventPhase cfg ps ts cals idx w)))"
    and "event_target c = Some (cid, eid)"
  shows "\<exists>ev \<in> set (E cid). ev_id ev = eid \<and> ev_vikunjaTaskId ev \<noteq> None
           \<and> ev_vikunjaTaskId ev \<noteq> Some []"
proof -
  have entry: "\<exists>ev \<in> set (E cid). ev_id ev = eid \<and> ev_vikunjaTaskId ev \<noteq> None
           \<and> ev_vikunjaTaskId ev \<noteq> Some []"
    if "(k, cid, e) \<in> set idx" "ev_id e = eid" for k e
  proof -
    from assms(1) that(1) have "e \<in> set (E cid) \<and> ev_vikunjaTaskId e = Some k \<and> k \<noteq> []"
      unfolding tagged_in_def by (drule_tac x = "(k, cid, e)" in bspec) simp_all
    with that(2) show ?thesis by (intro bexI[of _ e]) simp_all
  qed
  from assms(2) consider
    (planned) t where "c \<in> set (plannedCalls cfg (new_Map (map (\<lambda>p. (project_id p, p)) ps)) cals idx t)"
    | (stale) k c' e where "(k, c', e) \<in> set idx" "c = EventsDelete c' (ev_id e)"
    by (auto simp: calls_eventPhase)
  then show ?thesis
  proof cases
    case planned
    from planned_shape[OF planned] show ?thesis
    proof (elim disjE exE conjE)
      fix c' assume "c = EventsInsert c' (buildGoogleEvent cfg t)"
      with assms(3) show ?thesis by simp
    next
      fix c' e
      assume g: "Map_get idx (js_String (task_id t)) = Some (c', e)"
        and "c = EventsDelete c' (ev_id e)"
      with assms(3) have "c' = cid" and eid: "ev_id e = eid" by simp_all
      with Map_get_in_set[OF g] have "(js_String (task_id t), cid, e) \<in> set idx" by simp
      then show ?thesis using eid by (rule entry)
    next
      fix c' e
      assume g: "Map_get idx (js_String (task_id t)) = Some (c', e)"
        and "c = EventsUpdate c' (ev_id e) (buildGoogleEvent cfg t)"
      with assms(3) have "c' = cid" and eid: "ev_id e = eid" by simp_all
      with Map_get_in_set[OF g] have "(js_String (task_id t), cid, e) \<in> set idx" by simp
      then show ?thesis using eid by (rule entry)
    qed
  next
    case stale
    with assms(3) have "c' = cid" and eid: "ev_id e = eid" by simp_all
    with stale(1) have "(k, cid, e) \<in> set idx" by simp
    then show ?thesis using eid by (rule entry)
  qed
qed

lemma quiet_calls:
  "quiet w w' \<Longrightarrow> c \<in> set (calls_of (emitted w w')) \<Longrightarrow> event_target c = None"
  by (auto simp: quiet_def list_all_iff)

section \<open>Listing the tasks\<close>

lemma fetch_rejected:
  "next_outcome w = Err c
     \<Longrightarrow> fetchTaskPages src page acc w = Some (None, snd (remote (TasksGet page) w))"
  by (subst fetchTaskPages.simps) (simp add: split_beta fst_remote)

lemma fetch_more:
  "next_outcome w = Ok \<Longrightarrow> page < totalPages src page
     \<Longrightarrow> fetchTaskPages src page acc w =
         fetchTaskPages src (page + 1) (acc @ fst (src_tasks src page))
           (snd (remote (TasksGet page) w))"
  by (subst fetchTaskPages.simps) (simp add: split_beta fst_remote totalPages_def Let_def)

lemma faults_remote: "w_faults (snd (remote c w)) = tl (w_faults w)"
  by (simp add: remote_def)

lemma fetch_rejected_later:
  "w_faults w = replicate n Ok @ Err c # rest
     \<Longrightarrow> (\<forall>p. page \<le> p \<and> p < page + n \<longrightarrow> p < totalPages src p)
     \<Longrightarrow> \<exists>w'. fetchTaskPages src page acc w = Some (None, w')"
proof (induction n arbitrary: w page acc)
  case 0
  then have "next_outcome w = Err c" by (simp add: next_outcome_def)
  then show ?case by (simp add: fetch_rejected)
next
  case (Suc n)
  let ?w1 = "snd (remote (TasksGet page) w)"
  from Suc.prems(1) have ok: "next_outcome w = Ok" by (simp add: next_outcome_def)
  from Suc.prems(2) have more: "page < totalPages src page" by simp
  have f: "w_faults ?w1 = replicate n Ok @ Err c # rest"
    using Suc.prems(1) by (simp add: faults_remote)
  have p: "\<forall>p. page + 1 \<le> p \<and> p < page + 1 + n \<longrightarrow> p < totalPages src p"
    using Suc.prems(2) by simp
  from Suc.IH[OF f p] show ?case
    by (simp add: fetch_more[OF ok more])
qed

lemma calls_eventPhase_no_tasks:
  "calls_of (emitted w (eventPhase cfg ps [] cals idx w)) =
     map (\<lambda>(vikunjaId, calendarId, ev). EventsDelete calendarId (ev_id ev)) idx"
  by (simp add: calls_eventPhase) (induction idx; auto)

section \<open>What the operations of the calendar service do to its events\<close>

















section \<open>The tagged events as a map from task identifiers\<close>










section \<open>The steps of the event phase when every call is accepted\<close>




























section \<open>The calendar phase when every call is accepted\<close>











































section \<open>A cycle on a calendar service that is already in step\<close>















section \<open>The event payload\<close>

text \<open>
  C6. The payload is a function of the task (and of the configured frontend address):
  the summary is the title; the description is the task's description, empty when absent,
  followed by two line feeds, the label and the link to the task; the start is the due
  date and the end the day after it; the private property is the identifier rendered by
  \<^verbatim>\<open>String\<close>; the transparency is opaque.
\<close>

theorem buildGoogleEvent_fields:
  "summary (buildGoogleEvent cfg task) = task_title task
   \<and> description (buildGoogleEvent cfg task) =
       (case task_description task of None \<Rightarrow> [] | Some d \<Rightarrow> d)
       @ [CHR 0x0A, CHR 0x0A] @ ''View in Vikunja: ''
       @ (VIKUNJA_FRONTEND_URL cfg @ ''/projects/'' @ js_String (task_project_id task)
            @ ''/tasks/'' @ js_String (task_id task))
   \<and> start_date (buildGoogleEvent cfg task) = task_due_date task
   \<and> end_date (buildGoogleEvent cfg task) = map_option (\<lambda>d. d + 1) (task_due_date task)
   \<and> vikunjaTaskId (buildGoogleEvent cfg task) = js_String (task_id task)
   \<and> transparency (buildGoogleEvent cfg task) = ''opaque''"
  by (simp add: buildGoogleEvent_def)

section \<open>The decision for one task\<close>

text \<open>
  C2. For a task whose project resolves and whose target calendar is found, the calls that
  the loop body issues, whatever the outcomes of the calls, are: a create in the target
  calendar when no event is indexed under the task's identifier; a delete of the indexed
  event in its own calendar and then a create in the target calendar when that calendar is
  not the target; an update of the indexed event when it is in the target calendar and the
  task was modified strictly later than the event or the event's transparency is not
  opaque; and no call otherwise.
\<close>

theorem syncTask_precedence:
  assumes "resolveProject projectMap task = Some project"
    and "find (\<lambda>cal. cal_summary cal = CALENDAR_PREFIX cfg @ '' '' @ project_title project)
           googleCalendars = Some targetGCal"
  shows "calls_of (w_trace (syncTask cfg projectMap googleCalendars allGoogleEvents task w)) =
         calls_of (w_trace w) @
         (case Map_get allGoogleEvents (js_String (task_id task)) of
            None \<Rightarrow> [EventsInsert (cal_id targetGCal) (buildGoogleEvent cfg task)]
          | Some (calendarId, ev) \<Rightarrow>
              if calendarId \<noteq> cal_id targetGCal
              then [EventsDelete calendarId (ev_id ev),
                    EventsInsert (cal_id targetGCal) (buildGoogleEvent cfg task)]
              else if task_updated_at task > ev_updated ev
                      \<or> ev_transparency ev \<noteq> Some ''opaque''
              then [EventsUpdate calendarId (ev_id ev) (buildGoogleEvent cfg task)]
              else [])"
  using assms by (simp add: calls_syncTask plannedCalls_def)

text \<open>The four rows at task 42: no event, an event in the calendar ``[V] Old'', a stale
  event in ``[V] Ops'', an event in ``[V] Ops'' that is as recent as the task.\<close>

theorem syncTask_precedence_witness:
  "calls_of (w_trace (syncTask ex_cfg ex_projectMap ex_cals [] ex_task (ex_world [] []))) =
     [EventsInsert 0 (buildGoogleEvent ex_cfg ex_task)]
   \<and> calls_of (w_trace (syncTask ex_cfg ex_projectMap ex_cals
        [(''42'', (1, ex_event ''opaque'' 3000))] ex_task (ex_world [] []))) =
     [EventsDelete 1 5, EventsInsert 0 (buildGoogleEvent ex_cfg ex_task)]
   \<and> calls_of (w_trace (syncTask ex_cfg ex_projectMap ex_cals
        [(''42'', (0, ex_event ''opaque'' 999))] ex_task (ex_world [] []))) =
     [EventsUpdate 0 5 (buildGoogleEvent ex_cfg ex_task)]
   \<and> calls_of (w_trace (syncTask ex_cfg ex_projectMap ex_cals
        [(''42'', (0, ex_event ''opaque'' 1000))] ex_task (ex_world [] []))) = []"
  unfolding syncTask_precedence [OF ex_resolve ex_find]
  by code_simp

section \<open>When an event is updated\<close>

text \<open>
  C5, as the specification states it, fails: an event in the target calendar whose
  timestamp equals the task's is still updated when its transparency is not opaque.
\<close>

theorem update_without_later_timestamp_counterexample:
  "task_updated_at ex_task = ev_updated (ex_event ''transparent'' 1000)
   \<and> calls_of (w_trace (syncTask ex_cfg ex_projectMap ex_cals
        [(''42'', (0, ex_event ''transparent'' 1000))] ex_task (ex_world [] []))) =
     [EventsUpdate 0 5 (buildGoogleEvent ex_cfg ex_task)]"
  by code_simp

text \<open>
  C5, amended. For a task with an indexed event in its target calendar, one update call is
  issued if the task was modified strictly later than the event or the event's
  transparency is not opaque, and no call at all otherwise; with equal timestamps and an
  opaque event nothing is issued.
\<close>

theorem syncTask_update_iff_stale:
  assumes "resolveProject projectMap task = Some project"
    and "find (\<lambda>cal. cal_summary cal = CALENDAR_PREFIX cfg @ '' '' @ project_title project)
           googleCalendars = Some targetGCal"
    and "Map_get allGoogleEvents (js_String (task_id task)) = Some (cal_id targetGCal, ev)"
  shows "calls_of (w_trace (syncTask cfg projectMap googleCalendars allGoogleEvents task w)) =
         calls_of (w_trace w) @
         (if task_updated_at task > ev_updated ev \<or> ev_transparency ev \<noteq> Some ''opaque''
          then [EventsUpdate (cal_id targetGCal) (ev_id ev) (buildGoogleEvent cfg task)]
          else [])"
  using assms by (simp add: calls_syncTask plannedCalls_def)

theorem syncTask_update_iff_stale_witness:
  "calls_of (w_trace (syncTask ex_cfg ex_projectMap ex_cals
        [(''42'', (0, ex_event ''opaque'' 1000))] ex_task (ex_world [] []))) = []
   \<and> calls_of (w_trace (syncTask ex_cfg ex_projectMap ex_cals
        [(''42'', (0, ex_event ''opaque'' 999))] ex_task (ex_world [] []))) =
      [EventsUpdate 0 5 (buildGoogleEvent ex_cfg ex_task)]"
proof -
  have a: "Map_get [(''42'', (0, ex_event ''opaque'' t))] (js_String (task_id ex_task))
             = Some (cal_id \<lparr>cal_id = 0, cal_summary = ''[V] Ops''\<rparr>, ex_event ''opaque'' t)"
    for t
    by (simp add: Map_get_def js_String_42 ex_task_def)
  show ?thesis
    unfolding syncTask_update_iff_stale [OF ex_resolve ex_find a]
    by code_simp
qed

section \<open>Pacing\<close>

text \<open>
  C9, as the specification states it, fails when an event call is rejected: the delay
  of lines 269, 282, 297 and 313 stands inside the \<^verbatim>\<open>try\<close> block after the call, so a
  rejected call is not followed by it. Here the delete of a move is rejected and the
  create follows with no delay between the two.
\<close>

theorem rejected_call_not_paced_counterexample:
  "emitted (ex_world ex_store [Ok, Ok, Ok, Ok, Ok, Err 500])
     (syncCycle ex_cfg [ex_project] [ex_task] (ex_world ex_store [Ok, Ok, Ok, Ok, Ok, Err 500])) =
     [Call CalendarListList Ok,
      Call (AclList 0) Ok, Delay 200, Call (AclList 1) Ok, Delay 200,
      Call (EventsList 0) Ok, Delay 200, Call (EventsList 1) Ok, Delay 200,
      Call (EventsDelete 1 5) (Err 500),
      ConsoleError ''Failed to delete old event during move for task'',
      Call (EventsInsert 0 (buildGoogleEvent ex_cfg ex_task)) Ok, Delay 200]
   \<and> \<not> always_paced (emitted (ex_world ex_store [Ok, Ok, Ok, Ok, Ok, Err 500])
     (syncCycle ex_cfg [ex_project] [ex_task] (ex_world ex_store [Ok, Ok, Ok, Ok, Ok, Err 500])))"
  by code_simp

text \<open>
  C9, amended. In every cycle, for every outcome of the calls, each mutating call that the
  calendar service accepts is followed at once by the delay of 200 milliseconds, and each
  share-calendar call, accepted or rejected, is followed by that delay before the next
  call (the delay of line 220 stands outside the \<^verbatim>\<open>try\<close> block of
  \<^verbatim>\<open>ensureCalendarIsShared\<close>). So each of these calls is followed by the delay before
  the next mutating call. Nothing is stated of a rejected create-calendar, create-event,
  update-event or delete-event call.
\<close>

theorem syncCycle_paced:
  "grows w (syncCycle cfg vikunjaProjects vikunjaTasks w)
   \<and> paced (emitted w (syncCycle cfg vikunjaProjects vikunjaTasks w))
   \<and> share_paced (emitted w (syncCycle cfg vikunjaProjects vikunjaTasks w))"
  using paced_syncCycle[of w cfg vikunjaProjects vikunjaTasks] by (simp add: paced_step_def)

text \<open>The example of the specification, with no calendar at the start: the calendar is
  created and shared, the event is created, and each of the three is followed by the
  delay. When the share-calendar call is rejected, the delay still follows it.\<close>

theorem syncCycle_paced_witness:
  "emitted (ex_world [] []) (syncCycle ex_cfg [ex_project] [ex_task] (ex_world [] [])) =
     [Call CalendarListList Ok,
      Call (CalendarsInsert ''[V] Ops'') Ok, Delay 200,
      Call (AclList 10) Ok, Call (AclInsert 10 ''me@example.org'') Ok, Delay 200,
      Call (EventsList 10) Ok, Delay 200,
      Call (EventsInsert 10 (buildGoogleEvent ex_cfg ex_task)) Ok, Delay 200]
   \<and> paced (emitted (ex_world [] []) (syncCycle ex_cfg [ex_project] [ex_task] (ex_world [] [])))
   \<and> emitted (ex_world [] [Ok, Ok, Ok, Err 500])
       (syncCycle ex_cfg [ex_project] [ex_task] (ex_world [] [Ok, Ok, Ok, Err 500])) =
     [Call CalendarListList Ok,
      Call (CalendarsInsert ''[V] Ops'') Ok, Delay 200,
      Call (AclList 10) Ok, Call (AclInsert 10 ''me@example.org'') (Err 500),
      ConsoleError ''Failed to share calendar'', Delay 200,
      Call (EventsList 10) Ok, Delay 200,
      Call (EventsInsert 10 (buildGoogleEvent ex_cfg ex_task)) Ok, Delay 200]
   \<and> share_paced (emitted (ex_world [] [Ok, Ok, Ok, Err 500])
       (syncCycle ex_cfg [ex_project] [ex_task] (ex_world [] [Ok, Ok, Ok, Err 500])))"
proof -
  have a: "emitted (ex_world [] []) (syncCycle ex_cfg [ex_project] [ex_task] (ex_world [] [])) =
     [Call CalendarListList Ok,
      Call (CalendarsInsert ''[V] Ops'') Ok, Delay 200,
      Call (AclList 10) Ok, Call (AclInsert 10 ''me@example.org'') Ok, Delay 200,
      Call (EventsList 10) Ok, Delay 200,
      Call (EventsInsert 10 (buildGoogleEvent ex_cfg ex_task)) Ok, Delay 200]"
    by code_simp
  have b: "emitted (ex_world [] [Ok, Ok, Ok, Err 500])
       (syncCycle ex_cfg [ex_project] [ex_task] (ex_world [] [Ok, Ok, Ok, Err 500])) =
     [Call CalendarListList Ok,
      Call (CalendarsInsert ''[V] Ops'') Ok, Delay 200,
      Call (AclList 10) Ok, Call (AclInsert 10 ''me@example.org'') (Err 500),
      ConsoleError ''Failed to share calendar'', Delay 200,
      Call (EventsList 10) Ok, Delay 200,
      Call (EventsInsert 10 (buildGoogleEvent ex_cfg ex_task)) Ok, Delay 200]"
    by code_simp
  from syncCycle_paced[of "ex_world [] []" ex_cfg "[ex_project]" "[ex_task]"]
  have c: "paced (emitted (ex_world [] [])
             (syncCycle ex_cfg [ex_project] [ex_task] (ex_world [] [])))"
    by (rule conjunct1[OF conjunct2])
  from syncCycle_paced[of "ex_world [] [Ok, Ok, Ok, Err 500]" ex_cfg "[ex_project]" "[ex_task]"]
  have d: "share_paced (emitted (ex_world [] [Ok, Ok, Ok, Err 500])
       (syncCycle ex_cfg [ex_project] [ex_task] (ex_world [] [Ok, Ok, Ok, Err 500])))"
    by (rule conjunct2[OF conjunct2])
  from a c b d show ?thesis by (intro conjI)
qed

section \<open>The clean-up pass\<close>

text \<open>
  C3. The calls of the event phase are the calls of the loop over the uncompleted tasks
  followed by one delete for each index entry whose task identifier is not the identifier
  of an uncompleted task, in index order, and by nothing else; no create in the phase
  carries an identifier outside the uncompleted tasks, so a cleaned-up event is not
  created again; and a delete that is rejected with code 410 leaves only the call in the
  log, with no error message, where any other code adds the message.
\<close>

theorem cleanUp_deletes_stale:
  "calls_of (emitted w (eventPhase cfg vikunjaProjects uncompleted googleCalendars
                         allGoogleEvents w)) =
     concat (map (plannedCalls cfg (new_Map (map (\<lambda>p. (project_id p, p)) vikunjaProjects))
                    googleCalendars allGoogleEvents) uncompleted)
     @ [EventsDelete calendarId (ev_id ev). (vikunjaId, calendarId, ev) \<leftarrow> allGoogleEvents,
          vikunjaId \<notin> (\<lambda>task. js_String (task_id task)) ` set uncompleted]
   \<and> (\<forall>c p. EventsInsert c p \<in> set (calls_of (emitted w
            (eventPhase cfg vikunjaProjects uncompleted googleCalendars allGoogleEvents w)))
         \<longrightarrow> vikunjaTaskId p \<in> (\<lambda>task. js_String (task_id task)) ` set uncompleted)
   \<and> emitted w (deleteStaleEvent (calendarId, ev) w) =
       Call (EventsDelete calendarId (ev_id ev)) (next_outcome w) #
       (case next_outcome w of
          Ok \<Rightarrow> [Delay 200]
        | Err c \<Rightarrow> if c = 410 then [] else [ConsoleError ''Failed to delete event''])"
proof -
  have "vikunjaTaskId p \<in> (\<lambda>task. js_String (task_id task)) ` set uncompleted"
    if "EventsInsert c p \<in> set (calls_of (emitted w
            (eventPhase cfg vikunjaProjects uncompleted googleCalendars allGoogleEvents w)))"
    for c p
  proof -
    from that obtain task where "task \<in> set uncompleted"
      and "EventsInsert c p \<in> set (plannedCalls cfg
             (new_Map (map (\<lambda>p. (project_id p, p)) vikunjaProjects))
             googleCalendars allGoogleEvents task)"
      by (auto simp: calls_eventPhase)
    then show ?thesis
      using planned_inserts by (force simp: buildGoogleEvent_def)
  qed
  then show ?thesis
    by (simp only: calls_eventPhase emitted_deleteStaleEvent) blast
qed

theorem cleanUp_deletes_stale_witness:
  "calls_of (emitted (ex_world ex_store [])
     (eventPhase ex_cfg [ex_project] [ex_task] ex_cals
        [(''42'', 0, ex_event ''opaque'' 1000), (''99'', 1, ex_event ''opaque'' 1000)]
        (ex_world ex_store []))) = [EventsDelete 1 5]
   \<and> emitted (ex_world ex_store [Err 410])
        (deleteStaleEvent (1, ex_event ''opaque'' 1000) (ex_world ex_store [Err 410])) =
       [Call (EventsDelete 1 5) (Err 410)]"
  unfolding cleanUp_deletes_stale [THEN conjunct1]
    cleanUp_deletes_stale [THEN conjunct2, THEN conjunct2]
  by code_simp

section \<open>Tasks whose project or calendar does not resolve\<close>

text \<open>
  C7. Take an uncompleted task whose project does not resolve, or whose project resolves
  but has no calendar in the list of managed calendars; identifiers of tasks are unique
  and the entries of the index are different events. Then the loop body leaves the world
  as it is for that task (no call, no error), and among all calls of the event phase no
  create carries the task's identifier and no delete and no update is addressed to the
  event indexed under it.
\<close>

theorem unresolved_task_is_skipped:
  assumes task: "task \<in> set uncompleted"
    and ids: "distinct (map task_id uncompleted)"
    and idx: "distinct (map (\<lambda>(vikunjaId, calendarId, ev). (calendarId, ev_id ev)) allGoogleEvents)"
    and skip: "resolveProject (new_Map (map (\<lambda>p. (project_id p, p)) vikunjaProjects)) task = None
      \<or> (\<exists>project. resolveProject (new_Map (map (\<lambda>p. (project_id p, p)) vikunjaProjects)) task
                      = Some project
            \<and> find (\<lambda>cal. cal_summary cal = CALENDAR_PREFIX cfg @ '' '' @ project_title project)
                 googleCalendars = None)"
  shows "syncTask cfg (new_Map (map (\<lambda>p. (project_id p, p)) vikunjaProjects))
           googleCalendars allGoogleEvents task w' = w'
     \<and> (\<forall>c \<in> set (calls_of (emitted w (eventPhase cfg vikunjaProjects uncompleted
                                          googleCalendars allGoogleEvents w))).
          (\<forall>cid p. c = EventsInsert cid p \<longrightarrow> vikunjaTaskId p \<noteq> js_String (task_id task))
          \<and> (\<forall>calendarId ev.
                Map_get allGoogleEvents (js_String (task_id task)) = Some (calendarId, ev)
                \<longrightarrow> c \<noteq> EventsDelete calendarId (ev_id ev)
                    \<and> (\<forall>p. c \<noteq> EventsUpdate calendarId (ev_id ev) p)))"
proof -
  let ?pm = "new_Map (map (\<lambda>p. (project_id p, p)) vikunjaProjects)"
  let ?k0 = "js_String (task_id task)"
  let ?target = "\<lambda>(vikunjaId, calendarId, ev). (calendarId, ev_id (ev::gevent))"
  have other: "js_String (task_id t) \<noteq> ?k0"
    if "t \<in> set uncompleted" "c \<in> set (plannedCalls cfg ?pm googleCalendars allGoogleEvents t)"
    for t c
  proof
    assume "js_String (task_id t) = ?k0"
    then have "task_id t = task_id task" by (rule js_String_inj)
    with ids that(1) task have "t = task" by (rule distinct_map_eq)
    with that(2) planned_skip[OF skip] show False by simp
  qed
  have same: "k = ?k0"
    if "(k, cid, e) \<in> set allGoogleEvents" "Map_get allGoogleEvents ?k0 = Some (cid, e0)"
       "ev_id e = ev_id e0" for k cid e e0
  proof -
    have "(?k0, cid, e0) \<in> set allGoogleEvents" using that(2) by (rule Map_get_in_set)
    with idx that(1) have "(k, cid, e) = (?k0, cid, e0)"
      by (rule distinct_map_eq) (simp add: that(3))
    then show ?thesis by simp
  qed
  have main: "(\<forall>cid p. c = EventsInsert cid p \<longrightarrow> vikunjaTaskId p \<noteq> ?k0)
          \<and> (\<forall>calendarId ev. Map_get allGoogleEvents ?k0 = Some (calendarId, ev)
                \<longrightarrow> c \<noteq> EventsDelete calendarId (ev_id ev)
                    \<and> (\<forall>p. c \<noteq> EventsUpdate calendarId (ev_id ev) p))"
    if c: "c \<in> set (calls_of (emitted w (eventPhase cfg vikunjaProjects uncompleted
                                          googleCalendars allGoogleEvents w)))" for c
  proof -
    from c consider
      (planned) t where "t \<in> set uncompleted"
        "c \<in> set (plannedCalls cfg ?pm googleCalendars allGoogleEvents t)"
      | (stale) k cid e where "(k, cid, e) \<in> set allGoogleEvents"
        "k \<notin> (\<lambda>task. js_String (task_id task)) ` set uncompleted" "c = EventsDelete cid (ev_id e)"
      by (auto simp: calls_eventPhase)
    then show ?thesis
    proof cases
      case planned
      note ne = other[OF planned]
      from planned_shape[OF planned(2)] show ?thesis
      proof (elim disjE exE conjE)
        fix cid assume "c = EventsInsert cid (buildGoogleEvent cfg t)"
        with ne show ?thesis by (simp add: buildGoogleEvent_def)
      next
        fix cid e
        assume g: "Map_get allGoogleEvents (js_String (task_id t)) = Some (cid, e)"
          and "c = EventsDelete cid (ev_id e)"
        with ne same[OF Map_get_in_set[OF g]] show ?thesis by auto
      next
        fix cid e
        assume g: "Map_get allGoogleEvents (js_String (task_id t)) = Some (cid, e)"
          and "c = EventsUpdate cid (ev_id e) (buildGoogleEvent cfg t)"
        with ne same[OF Map_get_in_set[OF g]] show ?thesis by auto
      qed
    next
      case stale
      with same[OF stale(1)] task show ?thesis by auto
    qed
  qed
  show ?thesis
    using syncTask_skip[OF skip] main by blast
qed

theorem unresolved_task_is_skipped_witness:
  "syncTask ex_cfg (new_Map (map (\<lambda>p. (project_id p, p)) [])) ex_cals ex_index ex_task
       (ex_world ex_store []) = ex_world ex_store []
   \<and> calls_of (emitted (ex_world ex_store [])
         (eventPhase ex_cfg [] [ex_task] ex_cals ex_index (ex_world ex_store []))) =
       [EventsDelete 1 6]"
proof -
  have h1: "ex_task \<in> set [ex_task]" by simp
  have h2: "distinct (map task_id [ex_task])" by simp
  have h3: "distinct (map (\<lambda>(vikunjaId, calendarId, ev). (calendarId, ev_id ev)) ex_index)"
    by code_simp
  have "resolveProject (new_Map (map (\<lambda>p. (project_id p, p)) [])) ex_task = None"
    by code_simp
  then have h4: "resolveProject (new_Map (map (\<lambda>p. (project_id p, p)) [])) ex_task = None
      \<or> (\<exists>project. resolveProject (new_Map (map (\<lambda>p. (project_id p, p)) [])) ex_task
                      = Some project
            \<and> find (\<lambda>cal. cal_summary cal = CALENDAR_PREFIX ex_cfg @ '' '' @ project_title project)
                 ex_cals = None)"
    by (rule disjI1)
  have e: "calls_of (emitted (ex_world ex_store [])
         (eventPhase ex_cfg [] [ex_task] ex_cals ex_index (ex_world ex_store []))) =
       [EventsDelete 1 6]"
    by code_simp
  from unresolved_task_is_skipped [OF h1 h2 h3 h4, THEN conjunct1] e
  show ?thesis by (rule conjI)
qed

section \<open>Failed listings\<close>

text \<open>
  C8. When its request is rejected, the listing of the projects returns the empty list,
  and so does the listing of the calendars; the listing of the tasks returns the empty
  list when a page request is rejected after any number of pages that were fetched and
  announced more pages (the tasks of those pages are dropped); the run then goes on with
  the cycle on the empty task list; and with no uncompleted task the event phase issues
  one delete for every entry of the index and nothing else.
\<close>

theorem failed_listing_gives_empty_list:
  "(next_outcome w = Err c \<longrightarrow> fst (getVikunjaProjects src w) = [])
   \<and> (next_outcome w = Err c \<longrightarrow> fst (getManagedCalendars cfg w) = [])
   \<and> (w_faults w = replicate n Ok @ Err c # rest
        \<and> (\<forall>p. 1 \<le> p \<and> p < 1 + n \<longrightarrow> p < totalPages src p)
      \<longrightarrow> (\<exists>w'. getVikunjaTasks src w = Some ([], w')))
   \<and> (getVikunjaTasks src (snd (getVikunjaProjects src w)) = Some ([], w2)
      \<longrightarrow> run cfg src w = Some (syncCycle cfg (fst (getVikunjaProjects src w)) [] w2))
   \<and> calls_of (emitted w (eventPhase cfg vikunjaProjects [] googleCalendars allGoogleEvents w)) =
       map (\<lambda>(vikunjaId, calendarId, ev). EventsDelete calendarId (ev_id ev)) allGoogleEvents"
proof -
  have a: "next_outcome w = Err c \<longrightarrow> fst (getVikunjaProjects src w) = []"
    by (simp add: getVikunjaProjects_def split_beta fst_remote)
  have b: "next_outcome w = Err c \<longrightarrow> fst (getManagedCalendars cfg w) = []"
    by (simp add: getManagedCalendars_def split_beta fst_remote)
  have c: "\<exists>w'. getVikunjaTasks src w = Some ([], w')"
    if "w_faults w = replicate n Ok @ Err c # rest"
       "\<forall>p. 1 \<le> p \<and> p < 1 + n \<longrightarrow> p < totalPages src p"
  proof -
    from fetch_rejected_later[OF that, of "[]"] obtain w'
      where "fetchTaskPages src 1 [] w = Some (None, w')" by blast
    then show ?thesis by (simp add: getVikunjaTasks_def)
  qed
  have d: "getVikunjaTasks src (snd (getVikunjaProjects src w)) = Some ([], w2)
      \<longrightarrow> run cfg src w = Some (syncCycle cfg (fst (getVikunjaProjects src w)) [] w2)"
    by (simp add: run_def split_beta)
  from a b c d calls_eventPhase_no_tasks show ?thesis by blast
qed

text \<open>Page 1 is fetched and announces a second page, whose request is rejected: the
  listing returns no task. With the first page rejected, the run goes on and deletes the
  event of task 42, which is still open in the task source.\<close>

theorem failed_listing_gives_empty_list_witness:
  "(\<exists>w'. getVikunjaTasks ex_source2 (ex_world ex_store [Ok, Err 500]) = Some ([], w'))
   \<and> map_option (\<lambda>w'. calls_of (w_trace w'))
        (run ex_cfg ex_source (ex_world ex_store [Ok, Err 500])) =
      Some [ProjectsGet, TasksGet 1, CalendarListList, AclList 0, AclList 1,
            EventsList 0, EventsList 1, EventsDelete 1 5]"
proof -
  have f: "w_faults (ex_world ex_store [Ok, Err 500]) = replicate 1 Ok @ Err 500 # []"
    by (simp add: ex_world_def)
  have p: "\<forall>p. 1 \<le> p \<and> p < 1 + 1 \<longrightarrow> p < totalPages ex_source2 p"
    by (simp add: totalPages_def ex_source2_def)
  have "\<exists>w'. getVikunjaTasks ex_source2 (ex_world ex_store [Ok, Err 500]) = Some ([], w')"
    using failed_listing_gives_empty_list
      [THEN conjunct2, THEN conjunct2, THEN conjunct1, rule_format, OF conjI [OF f p]] .
  moreover have "map_option (\<lambda>w'. calls_of (w_trace w'))
        (run ex_cfg ex_source (ex_world ex_store [Ok, Err 500])) =
      Some [ProjectsGet, TasksGet 1, CalendarListList, AclList 0, AclList 1,
            EventsList 0, EventsList 1, EventsDelete 1 5]"
    by code_simp
  ultimately show ?thesis by (rule conjI)
qed

section \<open>Events that carry no task identifier\<close>

text \<open>
  C10. An event without the private task identifier is not registered in the index; every
  update and every delete of a cycle is addressed to the calendar and the identifier of
  an event that the calendar held at the start of the cycle with a non-empty task
  identifier; so, identifiers of events being unique within a calendar, no update and no
  delete is addressed to an event without the property, in any phase and for any outcome
  of the calls.
\<close>

theorem untagged_events_untouched:
  "(ev_vikunjaTaskId event = None
      \<longrightarrow> indexEvent calendarId allGoogleEvents event = allGoogleEvents)
   \<and> (\<forall>c \<in> set (calls_of (emitted w (syncCycle cfg vikunjaProjects vikunjaTasks w))).
        \<forall>cid eid. event_target c = Some (cid, eid)
          \<longrightarrow> (\<exists>ev \<in> set (events_of (w_sink w) cid).
                 ev_id ev = eid \<and> ev_vikunjaTaskId ev \<noteq> None
                 \<and> ev_vikunjaTaskId ev \<noteq> Some []))
   \<and> (\<forall>cid ev. ev \<in> set (events_of (w_sink w) cid) \<and> ev_vikunjaTaskId ev = None
                 \<and> distinct (map ev_id (events_of (w_sink w) cid))
        \<longrightarrow> (\<forall>c \<in> set (calls_of (emitted w (syncCycle cfg vikunjaProjects vikunjaTasks w))).
               event_target c \<noteq> Some (cid, ev_id ev)))"
proof -
  let ?cp = "calendarPhase cfg vikunjaProjects w"
  let ?ic = "indexCalendars (fst ?cp) [] (snd ?cp)"
  let ?ep = "eventPhase cfg vikunjaProjects (filter (\<lambda>task. \<not> task_done task) vikunjaTasks)
               (fst ?cp) (fst ?ic) (snd ?ic)"
  have cycle: "syncCycle cfg vikunjaProjects vikunjaTasks w = ?ep"
    by (simp add: syncCycle_def split_beta)
  have q1: "quiet w (snd ?cp)" by (rule quiet_calendarPhase)
  have q2: "quiet (snd ?cp) (snd ?ic)" using indexCalendars_quiet_tagged by blast
  have E: "events_of (w_sink (snd ?cp)) = events_of (w_sink w)"
    using q1 by (auto simp: quiet_def)
  have tg: "tagged_in (events_of (w_sink w)) (fst ?ic)"
    using indexCalendars_quiet_tagged[of "snd ?cp" "fst ?cp" "[]"] tagged_Nil
    unfolding E by blast
  have q12: "quiet w (snd ?ic)" using q1 q2 by (rule quiet_trans)
  have g3: "grows (snd ?ic) ?ep" using paced_eventPhase by (rule paced_step_grows)
  have em: "emitted w ?ep = emitted w (snd ?ic) @ emitted (snd ?ic) ?ep"
    using q12 g3 by (simp add: emitted_trans quiet_def)
  have addressed: "\<exists>ev \<in> set (events_of (w_sink w) cid). ev_id ev = eid \<and> ev_vikunjaTaskId ev \<noteq> None
           \<and> ev_vikunjaTaskId ev \<noteq> Some []"
    if c: "c \<in> set (calls_of (emitted w ?ep))" and t: "event_target c = Some (cid, eid)"
    for c cid eid
  proof -
    from c have "c \<in> set (calls_of (emitted w (snd ?ic)))
        \<or> c \<in> set (calls_of (emitted (snd ?ic) ?ep))"
      by (simp add: em calls_of_append)
    then show ?thesis
    proof
      assume "c \<in> set (calls_of (emitted w (snd ?ic)))"
      with q12 have "event_target c = None" by (rule quiet_calls)
      with t show ?thesis by simp
    next
      assume "c \<in> set (calls_of (emitted (snd ?ic) ?ep))"
      with tg show ?thesis using t by (rule eventPhase_targets)
    qed
  qed
  have spared: "event_target c \<noteq> Some (cid, ev_id ev)"
    if ev: "ev \<in> set (events_of (w_sink w) cid)" "ev_vikunjaTaskId ev = None"
      and d: "distinct (map ev_id (events_of (w_sink w) cid))"
      and c: "c \<in> set (calls_of (emitted w ?ep))" for cid ev c
  proof
    assume "event_target c = Some (cid, ev_id ev)"
    with c obtain ev' where ev': "ev' \<in> set (events_of (w_sink w) cid)" "ev_id ev' = ev_id ev"
      "ev_vikunjaTaskId ev' \<noteq> None"
      using addressed by blast
    from d ev'(1) ev(1) ev'(2) have "ev' = ev" by (rule distinct_map_eq)
    with ev'(3) ev(2) show False by simp
  qed
  have "ev_vikunjaTaskId event = None
      \<longrightarrow> indexEvent calendarId allGoogleEvents event = allGoogleEvents"
    by (simp add: indexEvent_def)
  with addressed spared show ?thesis
    unfolding cycle by blast
qed

text \<open>A calendar with a lunch of the user's and the event of task 99, which is no longer
  in the task source: the cycle deletes event 6 and the lunch is still there.\<close>

theorem untagged_events_untouched_witness:
  "indexEvent 0 [] ex_untagged = []
   \<and> calls_of (emitted (ex_world ex_store2 [])
        (syncCycle ex_cfg [ex_project] [ex_task] (ex_world ex_store2 []))) =
      [CalendarListList, AclList 0, EventsList 0,
       EventsInsert 0 (buildGoogleEvent ex_cfg ex_task), EventsDelete 0 6]
   \<and> map ev_id (events_of (w_sink (syncCycle ex_cfg [ex_project] [ex_task]
                                         (ex_world ex_store2 []))) 0) = [8, 10]"
proof -
  have "ev_vikunjaTaskId ex_untagged = None" by (simp add: ex_untagged_def)
  then have "indexEvent 0 [] ex_untagged = []"
    using untagged_events_untouched [THEN conjunct1, rule_format] by blast
  moreover have "calls_of (emitted (ex_world ex_store2 [])
        (syncCycle ex_cfg [ex_project] [ex_task] (ex_world ex_store2 []))) =
      [CalendarListList, AclList 0, EventsList 0,
       EventsInsert 0 (buildGoogleEvent ex_cfg ex_task), EventsDelete 0 6]
   \<and> map ev_id (events_of (w_sink (syncCycle ex_cfg [ex_project] [ex_task]
                                         (ex_world ex_store2 []))) 0) = [8, 10]"
    by code_simp
  ultimately show ?thesis by (rule conjI)
qed

section \<open>Convergence and correspondence\<close>





section \<open>Idempotence\<close>





end
